theory Spec2Isabelle
  imports Complex_Main "HOL-Library.Sublist" "HOL-Library.Log_Nat"
begin

section \<open>JavaScript values and strings\<close>

text \<open>
  The server is a TypeScript program on Express. A value read from a JSON body or from a
  decoded token is any JavaScript value; the handlers only ask whether it is a string and
  which one, so objects and arrays are one constructor. A number is a binary64 float:
  \<open>NaN\<close>, an infinity, minus zero, or a finite value (\<open>Fin 0\<close> is plus zero). A string is a
  list of code units; the embedding covers the code units below 256.
\<close>

datatype jsnum = NaN | Fin rat | NegZero | PosInf | NegInf

datatype jsval =
    JUndefined
  | JNull
  | JBool bool
  | JNumber jsnum
  | JString string
  | JObject

definition code :: "char \<Rightarrow> nat" where
  "code c = of_char c"

text \<open>
  Letter case among the code units below 256. The capital letters are \<open>A\<close> to \<open>Z\<close> and the
  accented capitals 192 to 222 without the multiplication sign 215; each has its small
  letter 32 above it. Lower case maps every capital to its small letter and leaves every
  other code unit; it is what the store's \<open>lower\<close> gives, which \<open>ILIKE\<close> compares.
\<close>

definition toLowerChar :: "char \<Rightarrow> char" where
  "toLowerChar c =
     (if (65 \<le> code c \<and> code c \<le> 90) \<or> (192 \<le> code c \<and> code c \<le> 222 \<and> code c \<noteq> 215)
      then char_of (code c + 32) else c)"

definition toLowerCase :: "string \<Rightarrow> string" where
  "toLowerCase s = map toLowerChar s"

text \<open>
  \<open>String.prototype.toUpperCase\<close>: a small letter becomes its capital; the sharp s (223)
  becomes \<open>SS\<close>; the micro sign (181) and the y with diaeresis (255) become letters above
  255, so the result leaves the code units the embedding covers (\<open>None\<close>); every other
  code unit stays.
\<close>

definition toUpperChar :: "char \<Rightarrow> string option" where
  "toUpperChar c =
     (if (97 \<le> code c \<and> code c \<le> 122) \<or> (224 \<le> code c \<and> code c \<le> 254 \<and> code c \<noteq> 247)
      then Some [char_of (code c - 32)]
      else if code c = 223 then Some ''SS''
      else if code c = 181 \<or> code c = 255 then None
      else Some [c])"

definition toUpperCase :: "string \<Rightarrow> string option" where
  "toUpperCase s = map_option concat (those (map toUpperChar s))"

text \<open>
  White space of ECMAScript (\<open>\s\<close> of a regular expression, and what \<open>trim\<close> strips) among the
  code units below 256: tab, line feed, vertical tab, form feed, carriage return, space and
  the no-break space. The line terminators among them are what \<open>.\<close> does not match.
\<close>

definition isWhiteSpace :: "char \<Rightarrow> bool" where
  "isWhiteSpace c = (code c \<in> {9, 10, 11, 12, 13, 32, 160})"

definition isLineTerminator :: "char \<Rightarrow> bool" where
  "isLineTerminator c = (code c \<in> {10, 13})"

definition trim :: "string \<Rightarrow> string" where
  "trim s = rev (dropWhile isWhiteSpace (rev (dropWhile isWhiteSpace s)))"

text \<open>
  \<open>the_string\<close> reads a value that a \<open>typeof v === 'string'\<close> test has already admitted;
  \<open>truthy\<close> is the conversion to a boolean that \<open>!v\<close> and \<open>if (v)\<close> apply.
\<close>

definition the_string :: "jsval \<Rightarrow> string" where
  "the_string v = (case v of JString s \<Rightarrow> s | _ \<Rightarrow> [])"

definition truthy :: "jsval \<Rightarrow> bool" where
  "truthy v =
     (case v of
        JUndefined \<Rightarrow> False
      | JNull \<Rightarrow> False
      | JBool b \<Rightarrow> b
      | JNumber n \<Rightarrow> n \<noteq> NaN \<and> n \<noteq> Fin 0 \<and> n \<noteq> NegZero
      | JString s \<Rightarrow> s \<noteq> []
      | JObject \<Rightarrow> True)"

text \<open>
  A parameter of the query string as Express hands it over (\<open>req.query.name\<close>): absent, a
  string, an array (the name given more than once) or an object (\<open>name[key]=...\<close>).
\<close>

datatype qval = QStr string | QArr "qval list" | QObj

subsection \<open>Number and Math.min\<close>

text \<open>
  \<open>Number(v)\<close> of a query parameter: a string is read as a numeric literal, an array and
  an object through their text (the elements joined by commas, \<open>[object Object]\<close>). The
  text is trimmed; the empty text is 0; a literal is a decimal with an optional sign,
  fraction and exponent, \<open>Infinity\<close> with an optional sign, or an unsigned integer in base
  16, 8 or 2 after \<open>0x\<close>, \<open>0o\<close> or \<open>0b\<close>; anything else is \<open>NaN\<close>. The value of a literal is
  rounded to the nearest binary64 float, to the even one of two that are equally near.
\<close>

text \<open>
  The finite binary64 floats are \<open>m * 2 ^ e\<close> with \<open>m\<close> below \<open>2 ^ 53\<close> and \<open>e\<close> from -1074 to
  971. \<open>ilog2 r\<close> is the exponent of the greatest power of two that is at most \<open>r\<close>, for
  a positive \<open>r\<close>; \<open>binary64 r\<close> rounds a value that is not negative, to infinity when the
  rounded value reaches \<open>2 ^ 1024\<close>.
\<close>

definition pow2 :: "int \<Rightarrow> rat" where
  "pow2 e = (if 0 \<le> e then 2 ^ nat e else 1 / 2 ^ nat (- e))"

definition ilog2 :: "rat \<Rightarrow> int" where
  "ilog2 r =
     (let k = bitlen (fst (quotient_of r)) - bitlen (snd (quotient_of r))
      in if pow2 k \<le> r then k else k - 1)"

definition round_half_even :: "rat \<Rightarrow> int" where
  "round_half_even q =
     (let f = \<lfloor>q\<rfloor>; t = q - of_int f
      in if t < 1 / 2 then f else if 1 / 2 < t then f + 1 else if even f then f else f + 1)"

definition binary64 :: "rat \<Rightarrow> jsnum" where
  "binary64 r =
     (if r = 0 then Fin 0
      else if 1024 \<le> ilog2 r then PosInf
      else
        (let e = max (ilog2 r - 52) (- 1074);
             m = round_half_even (r / pow2 e)
         in if e = 971 \<and> m = 2 ^ 53 then PosInf else Fin (of_int m * pow2 e)))"

definition digit_of :: "char \<Rightarrow> nat option" where
  "digit_of c =
     (if 48 \<le> code c \<and> code c \<le> 57 then Some (code c - 48)
      else if 97 \<le> code c \<and> code c \<le> 102 then Some (code c - 87)
      else if 65 \<le> code c \<and> code c \<le> 70 then Some (code c - 55)
      else None)"

fun digits_from :: "nat \<Rightarrow> nat \<Rightarrow> string \<Rightarrow> nat option" where
  "digits_from base acc [] = Some acc"
| "digits_from base acc (c # cs) =
     (case digit_of c of
        None \<Rightarrow> None
      | Some v \<Rightarrow> if v < base then digits_from base (acc * base + v) cs else None)"

definition digits :: "nat \<Rightarrow> string \<Rightarrow> nat option" where
  "digits base s = (if s = [] then None else digits_from base 0 s)"

definition is_exp_mark :: "char \<Rightarrow> bool" where
  "is_exp_mark c = (c = CHR ''e'' \<or> c = CHR ''E'')"

text \<open>The exponent part after its mark: an optional sign and decimal digits.\<close>

definition exponent_part :: "string \<Rightarrow> int option" where
  "exponent_part s =
     (case s of
        [] \<Rightarrow> None
      | c # cs \<Rightarrow>
          if c = CHR ''-'' then map_option (\<lambda>n. - int n) (digits 10 cs)
          else if c = CHR ''+'' then map_option int (digits 10 cs)
          else map_option int (digits 10 s))"

text \<open>The mantissa: \<open>digits\<close>, \<open>digits.\<close>, \<open>digits.digits\<close> or \<open>.digits\<close>.\<close>

definition mantissa :: "string \<Rightarrow> rat option" where
  "mantissa s =
     (let ip = takeWhile (\<lambda>c. c \<noteq> CHR ''.'') s;
          rest = dropWhile (\<lambda>c. c \<noteq> CHR ''.'') s
      in if rest = [] then map_option of_nat (digits 10 ip)
         else
           (let fp = tl rest
            in if ip = [] then map_option (\<lambda>f. of_nat f / 10 ^ length fp) (digits 10 fp)
               else if fp = [] then map_option of_nat (digits 10 ip)
               else
                 (case (digits 10 ip, digits 10 fp) of
                    (Some i, Some f) \<Rightarrow> Some (of_nat i + of_nat f / 10 ^ length fp)
                  | _ \<Rightarrow> None)))"

definition scale :: "rat \<Rightarrow> int \<Rightarrow> rat" where
  "scale m e = (if 0 \<le> e then m * 10 ^ nat e else m / 10 ^ nat (- e))"

definition unsigned_decimal :: "string \<Rightarrow> jsnum" where
  "unsigned_decimal s =
     (if s = ''Infinity'' then PosInf
      else
        (let m = takeWhile (\<lambda>c. \<not> is_exp_mark c) s;
             rest = dropWhile (\<lambda>c. \<not> is_exp_mark c) s
         in case mantissa m of
              None \<Rightarrow> NaN
            | Some v \<Rightarrow>
                if rest = [] then binary64 v
                else
                  (case exponent_part (tl rest) of
                     None \<Rightarrow> NaN
                   | Some e \<Rightarrow> binary64 (scale v e))))"

definition negate :: "jsnum \<Rightarrow> jsnum" where
  "negate n =
     (case n of
        NaN \<Rightarrow> NaN
      | Fin r \<Rightarrow> if r = 0 then NegZero else Fin (- r)
      | NegZero \<Rightarrow> Fin 0
      | PosInf \<Rightarrow> NegInf
      | NegInf \<Rightarrow> PosInf)"

definition radix_literal :: "nat \<Rightarrow> string \<Rightarrow> jsnum" where
  "radix_literal base s = (case digits base s of None \<Rightarrow> NaN | Some n \<Rightarrow> binary64 (of_nat n))"

definition StringToNumber :: "string \<Rightarrow> jsnum" where
  "StringToNumber s =
     (let t = trim s
      in if t = [] then Fin 0
         else if toLowerCase (take 2 t) = ''0x'' then radix_literal 16 (drop 2 t)
         else if toLowerCase (take 2 t) = ''0o'' then radix_literal 8 (drop 2 t)
         else if toLowerCase (take 2 t) = ''0b'' then radix_literal 2 (drop 2 t)
         else if hd t = CHR ''-'' then negate (unsigned_decimal (tl t))
         else if hd t = CHR ''+'' then unsigned_decimal (tl t)
         else unsigned_decimal t)"

fun join :: "string list \<Rightarrow> string" where
  "join [] = []"
| "join [s] = s"
| "join (s # t # ss) = s @ '','' @ join (t # ss)"

fun toString :: "qval \<Rightarrow> string" where
  "toString (QStr s) = s"
| "toString (QArr vs) = join (map toString vs)"
| "toString QObj = ''[object Object]''"

definition Number :: "qval \<Rightarrow> jsnum" where
  "Number v = StringToNumber (toString v)"

text \<open>
  \<open>Math.min\<close> of two numbers: \<open>NaN\<close> when either is \<open>NaN\<close>; minus zero is less than plus
  zero.
\<close>

definition Math_min :: "jsnum \<Rightarrow> jsnum \<Rightarrow> jsnum" where
  "Math_min a b =
     (case (a, b) of
        (NaN, _) \<Rightarrow> NaN
      | (_, NaN) \<Rightarrow> NaN
      | (NegInf, _) \<Rightarrow> NegInf
      | (_, NegInf) \<Rightarrow> NegInf
      | (PosInf, y) \<Rightarrow> y
      | (x, PosInf) \<Rightarrow> x
      | (NegZero, NegZero) \<Rightarrow> NegZero
      | (NegZero, Fin y) \<Rightarrow> if y < 0 then Fin y else NegZero
      | (Fin x, NegZero) \<Rightarrow> if x < 0 then Fin x else NegZero
      | (Fin x, Fin y) \<Rightarrow> Fin (min x y))"

section \<open>isUuid\<close>

text \<open>
  \<^verbatim>\<open>/^[0-9a-f]{8}-[0-9a-f]{4}-[1-5][0-9a-f]{3}-[89ab][0-9a-f]{3}-[0-9a-f]{12}$/i\<close>:
  the expression is anchored at both ends, so it reads the whole string, one class per
  position. With the \<open>i\<close> flag and no \<open>u\<close> flag a letter class matches both cases of the
  ASCII letters and nothing else.
\<close>

datatype cclass = Hex | Dash | Version | Variant

definition isHex :: "char \<Rightarrow> bool" where
  "isHex c = (c \<in> set ''0123456789abcdefABCDEF'')"

fun in_class :: "cclass \<Rightarrow> char \<Rightarrow> bool" where
  "in_class Hex c = isHex c"
| "in_class Dash c = (c = CHR ''-'')"
| "in_class Version c = (c \<in> set ''12345'')"
| "in_class Variant c = (c \<in> set ''89abAB'')"

definition uuid_pattern :: "cclass list" where
  "uuid_pattern =
     replicate 8 Hex @ [Dash] @ replicate 4 Hex @ [Dash] @
     [Version] @ replicate 3 Hex @ [Dash] @
     [Variant] @ replicate 3 Hex @ [Dash] @ replicate 12 Hex"

definition uuid_regex_test :: "string \<Rightarrow> bool" where
  "uuid_regex_test v = list_all2 in_class uuid_pattern v"

definition isUuid :: "jsval \<Rightarrow> bool" where
  "isUuid v = (case v of JString s \<Rightarrow> uuid_regex_test s | _ \<Rightarrow> False)"

section \<open>The relational store\<close>

text \<open>
  The three tables of the schema. A \<open>uuid\<close> column holds the canonical text of the value,
  which is in lower case; \<open>timestamptz\<close> is a count of microseconds; a nullable \<open>text\<close>
  column is an option.
\<close>

record user_row =
  u_id :: string
  u_display_name :: "string option"
  u_created_at :: nat

record problem_row =
  p_id :: string
  p_title :: string
  p_description :: string
  p_category :: string
  p_location :: string
  p_country_code :: "string option"
  p_created_at :: nat

record match_row =
  m_id :: string
  m_user_id :: string
  m_problem_id :: string
  m_role :: string
  m_created_at :: nat

record db =
  users :: "user_row list"
  problems :: "problem_row list"
  problem_matches :: "match_row list"

text \<open>
  What a query of the store can answer instead of rows: a constraint of the schema is
  violated, \<open>maybeSingle\<close> found more than one row, the interface of the store refuses
  the request, or a text of the request is none the store takes.
\<close>

datatype pg_error =
    CheckViolation
  | UniqueViolation
  | ForeignKeyViolation
  | MultipleRows
  | RequestRefused
  | InvalidByteSequence

text \<open>
  The store reads a \<open>uuid\<close> from text and compares the values, so letter case does not
  matter in a comparison with a column. Every string the handlers send to a \<open>uuid\<close> column
  has passed \<open>isUuid\<close> first; on those the value's canonical text is the string in lower
  case.
\<close>

definition uuid_in :: "string \<Rightarrow> string" where
  "uuid_in s = toLowerCase s"

text \<open>\<open>.maybeSingle()\<close> on a select: no row is \<open>null\<close>, one row is that row, more is an error.\<close>

definition maybeSingle :: "'a list \<Rightarrow> pg_error + 'a option" where
  "maybeSingle rows =
     (case rows of
        [] \<Rightarrow> Inr None
      | [r] \<Rightarrow> Inr (Some r)
      | _ \<Rightarrow> Inl MultipleRows)"

definition match_key :: "match_row \<Rightarrow> string \<times> string" where
  "match_key m = (m_user_id m, m_problem_id m)"

text \<open>
  \<^verbatim>\<open>.upsert({ user_id, problem_id, role }, { onConflict: 'user_id,problem_id' })\<close>
  followed by \<^verbatim>\<open>.select(...).single()\<close>: an insert whose conflict on the unique pair turns
  into an update of the columns of the payload. The row's own \<open>id\<close> and \<open>created_at\<close> are not
  in the payload: an insert takes them from the column defaults (\<open>new_id\<close> and \<open>now\<close> stand
  for what \<open>gen_random_uuid()\<close> and \<open>now()\<close> deliver), an update leaves them. The check on
  \<open>role\<close> is tested on the proposed row; the primary key and the two foreign keys are tested
  when a row is inserted.
\<close>

definition upsert_match ::
  "string \<Rightarrow> nat \<Rightarrow> db \<Rightarrow> string \<Rightarrow> string \<Rightarrow> string \<Rightarrow> pg_error + (match_row \<times> db)" where
  "upsert_match new_id now d userId problemId r =
     (let u = uuid_in userId; p = uuid_in problemId in
      if r \<noteq> ''SOLVER'' \<and> r \<noteq> ''AFFECTED'' then Inl CheckViolation
      else
        (case find (\<lambda>m. match_key m = (u, p)) (problem_matches d) of
           Some m \<Rightarrow>
             Inr (m\<lparr>m_role := r\<rparr>,
                  d\<lparr>problem_matches :=
                       map (\<lambda>x. if match_key x = (u, p) then x\<lparr>m_role := r\<rparr> else x)
                         (problem_matches d)\<rparr>)
         | None \<Rightarrow>
             if new_id \<in> set (map m_id (problem_matches d)) then Inl UniqueViolation
             else if u \<notin> set (map u_id (users d)) then Inl ForeignKeyViolation
             else if p \<notin> set (map p_id (problems d)) then Inl ForeignKeyViolation
             else
               (let row = \<lparr>m_id = new_id, m_user_id = u, m_problem_id = p,
                           m_role = r, m_created_at = now\<rparr>
                in Inr (row, d\<lparr>problem_matches := problem_matches d @ [row]\<rparr>))))"

text \<open>\<^verbatim>\<open>.delete().eq('user_id', userId).eq('problem_id', problemId)\<close>: no row deleted is no error.\<close>

definition delete_match :: "db \<Rightarrow> string \<Rightarrow> string \<Rightarrow> db" where
  "delete_match d userId problemId =
     d\<lparr>problem_matches :=
         filter (\<lambda>m. \<not> (m_user_id m = uuid_in userId \<and> m_problem_id m = uuid_in problemId))
           (problem_matches d)\<rparr>"

subsection \<open>Selecting rows\<close>

text \<open>
  \<^verbatim>\<open>.order('created_at', { ascending: false })\<close>: the rows with the latest first. The
  store may put rows of one instant in any order; the embedding fixes one.
\<close>

definition order_desc :: "('a \<Rightarrow> nat) \<Rightarrow> 'a list \<Rightarrow> 'a list" where
  "order_desc created_at rows = rev (sort_key created_at rows)"

text \<open>
  \<^verbatim>\<open>.limit(count)\<close> sends the number as text, and the store cuts the rows at a count it
  reads. A number that is a positive integer is that count (\<open>limit_count\<close>). What the store
  makes of any other number (zero, a negative number, a fraction, \<open>NaN\<close>, an infinity) is
  a parameter of the embedding, a \<open>limit_policy\<close>: the store refuses the request, or it
  answers with the rows cut at some count, or not cut at all (\<open>None\<close>).
\<close>

definition limit_count :: "jsnum \<Rightarrow> nat option" where
  "limit_count count =
     (case count of
        Fin r \<Rightarrow> if 1 \<le> r \<and> r = of_int \<lfloor>r\<rfloor> then Some (nat \<lfloor>r\<rfloor>) else None
      | _ \<Rightarrow> None)"

type_synonym limit_policy = "jsnum \<Rightarrow> pg_error + nat option"

definition store_limit :: "limit_policy \<Rightarrow> jsnum \<Rightarrow> pg_error + nat option" where
  "store_limit L count =
     (case limit_count count of
        Some n \<Rightarrow> Inr (Some n)
      | None \<Rightarrow> L count)"

definition limit_rows :: "nat option \<Rightarrow> 'a list \<Rightarrow> 'a list" where
  "limit_rows c rows = (case c of None \<Rightarrow> rows | Some n \<Rightarrow> take n rows)"

text \<open>
  The pattern of \<open>LIKE\<close>: \<open>%\<close> stands for any run of characters, \<open>_\<close> for one character, a
  backslash makes the next character literal, and a pattern may not end in a lone
  backslash. The interface of the store reads \<open>*\<close> in the operand of \<open>like\<close> and \<open>ilike\<close>
  as \<open>%\<close>. \<open>ILIKE\<close> puts the pattern and the text in lower case, accented letters too, and
  compares them.
\<close>

datatype like_token = AnyRun | AnyOne | Lit char

fun like_tokens :: "string \<Rightarrow> like_token list option" where
  "like_tokens [] = Some []"
| "like_tokens (c # cs) =
     (if c = CHR 0x5C then
        (case cs of
           [] \<Rightarrow> None
         | e # rest \<Rightarrow> map_option ((#) (Lit e)) (like_tokens rest))
      else if c = CHR ''%'' then map_option ((#) AnyRun) (like_tokens cs)
      else if c = CHR ''_'' then map_option ((#) AnyOne) (like_tokens cs)
      else map_option ((#) (Lit c)) (like_tokens cs))"

fun like_match :: "like_token list \<Rightarrow> string \<Rightarrow> bool" where
  "like_match [] s = (s = [])"
| "like_match (Lit c # ts) s = (case s of [] \<Rightarrow> False | d # r \<Rightarrow> c = d \<and> like_match ts r)"
| "like_match (AnyOne # ts) s = (case s of [] \<Rightarrow> False | d # r \<Rightarrow> like_match ts r)"
| "like_match (AnyRun # ts) s =
     (like_match ts s \<or> (case s of [] \<Rightarrow> False | d # r \<Rightarrow> like_match (AnyRun # ts) r))"

definition star2percent :: "char \<Rightarrow> char" where
  "star2percent c = (if c = CHR ''*'' then CHR ''%'' else c)"

definition ilike :: "string \<Rightarrow> string \<Rightarrow> bool option" where
  "ilike text operand =
     map_option (\<lambda>ts. like_match ts (toLowerCase text))
       (like_tokens (toLowerCase (map star2percent operand)))"

text \<open>
  A condition on \<open>problems\<close> as the client library sends it: a column, an operator and an
  operand (\<^verbatim>\<open>.eq(column, value)\<close>, \<^verbatim>\<open>.ilike(column, pattern)\<close>), or the text given to
  \<^verbatim>\<open>.or(...)\<close>, which the store parses itself. The embedding covers the operators \<open>eq\<close> and
  \<open>ilike\<close> on the text columns; a comparison with \<open>NULL\<close> selects no row.
\<close>

datatype cond = Cmp string string string | Or string

definition problem_text_column :: "string \<Rightarrow> (problem_row \<Rightarrow> string option) option" where
  "problem_text_column c =
     (if c = ''title'' then Some (\<lambda>p. Some (p_title p))
      else if c = ''description'' then Some (\<lambda>p. Some (p_description p))
      else if c = ''category'' then Some (\<lambda>p. Some (p_category p))
      else if c = ''location'' then Some (\<lambda>p. Some (p_location p))
      else if c = ''country_code'' then Some p_country_code
      else None)"

definition eval_cmp :: "string \<Rightarrow> string \<Rightarrow> string \<Rightarrow> problem_row \<Rightarrow> bool option" where
  "eval_cmp column operator operand p =
     (case problem_text_column column of
        None \<Rightarrow> None
      | Some col \<Rightarrow>
          if operator = ''eq'' then Some (col p = Some operand)
          else if operator = ''ilike'' then
            (case col p of
               None \<Rightarrow> Some False
             | Some text \<Rightarrow> ilike text operand)
          else None)"

text \<open>
  The text of an \<open>or\<close> is a list of conditions \<open>column.operator.operand\<close> with commas
  between them, which the client library sends between parentheses. An operand runs up
  to the next comma or closing parenthesis, and a closing parenthesis ends the list. So a
  text with a closing parenthesis of its own is read up to that parenthesis (\<open>or_list\<close>);
  what the store makes of the text after it is a parameter of the embedding, an
  \<open>or_reading\<close>: it refuses the request, or it ignores that text. An operand that begins
  with a double quote or a brace is read by rules of its own, which are not modelled.
\<close>

datatype or_reading = RefuseRest | IgnoreRest

fun split_on :: "char \<Rightarrow> string \<Rightarrow> string list" where
  "split_on sep [] = [[]]"
| "split_on sep (c # cs) =
     (if c = sep then [] # split_on sep cs
      else (case split_on sep cs of [] \<Rightarrow> [[c]] | w # ws \<Rightarrow> (c # w) # ws))"

definition parse_cmp :: "string \<Rightarrow> (string \<times> string \<times> string) option" where
  "parse_cmp s =
     (let column = takeWhile (\<lambda>c. c \<noteq> CHR ''.'') s;
          rest = dropWhile (\<lambda>c. c \<noteq> CHR ''.'') s
      in if rest = [] then None
         else
           (let operator = takeWhile (\<lambda>c. c \<noteq> CHR ''.'') (tl rest);
                rest' = dropWhile (\<lambda>c. c \<noteq> CHR ''.'') (tl rest)
            in if rest' = [] then None
               else if take 1 (tl rest') = [CHR 0x22] \<or> take 1 (tl rest') = ''{'' then None
               else Some (column, operator, tl rest')))"

definition or_list :: "string \<Rightarrow> string" where
  "or_list s = takeWhile (\<lambda>c. c \<noteq> CHR '')'') s"

text \<open>
  The comparisons the store reads in a condition, any of which may hold: the one of
  \<^verbatim>\<open>.eq\<close> or \<^verbatim>\<open>.ilike\<close>, or those in the text of an \<open>or\<close> (\<open>None\<close> is a piece that
  is not \<open>column.operator.operand\<close>).
\<close>

fun comparisons :: "cond \<Rightarrow> (string \<times> string \<times> string) option list" where
  "comparisons (Cmp column operator operand) = [Some (column, operator, operand)]"
| "comparisons (Or s) = map parse_cmp (split_on CHR '','' (or_list s))"

fun eval_any :: "(string \<times> string \<times> string) option list \<Rightarrow> problem_row \<Rightarrow> bool option" where
  "eval_any [] p = Some False"
| "eval_any (None # fs) p = None"
| "eval_any (Some (column, operator, operand) # fs) p =
     (case eval_cmp column operator operand p of
        None \<Rightarrow> None
      | Some b \<Rightarrow> map_option (\<lambda>b'. b \<or> b') (eval_any fs p))"

definition eval_cond :: "cond \<Rightarrow> problem_row \<Rightarrow> bool option" where
  "eval_cond c p = eval_any (comparisons c) p"

text \<open>The conditions of a query all hold of a selected row.\<close>

fun eval_conds :: "cond list \<Rightarrow> problem_row \<Rightarrow> bool option" where
  "eval_conds [] p = Some True"
| "eval_conds (c # cs) p =
     (case eval_cond c p of
        None \<Rightarrow> None
      | Some b \<Rightarrow> map_option (\<lambda>b'. b \<and> b') (eval_conds cs p))"

fun filter_rows :: "('a \<Rightarrow> bool option) \<Rightarrow> 'a list \<Rightarrow> 'a list option" where
  "filter_rows f [] = Some []"
| "filter_rows f (x # xs) =
     (case f x of
        None \<Rightarrow> None
      | Some b \<Rightarrow> map_option (\<lambda>ys. if b then x # ys else ys) (filter_rows f xs))"

text \<open>
  The embedding covers a comparison on a text column of \<open>problems\<close> with \<open>eq\<close>, or with
  \<open>ilike\<close> and a pattern that \<open>LIKE\<close> accepts; a query with any other comparison is not
  modelled.
\<close>

definition covered :: "(string \<times> string \<times> string) option \<Rightarrow> bool" where
  "covered a =
     (case a of
        None \<Rightarrow> False
      | Some (column, operator, operand) \<Rightarrow>
          (case problem_text_column column of
             None \<Rightarrow> False
           | Some col \<Rightarrow>
               operator = ''eq'' \<or>
               (operator = ''ilike'' \<and>
                (case like_tokens (toLowerCase (map star2percent operand)) of
                   None \<Rightarrow> False
                 | Some ts \<Rightarrow> True))))"

text \<open>
  What makes the store refuse a query it has read: text after the parenthesis that ends
  the list of an \<open>or\<close>, under the reading that refuses it; and an operand that holds the
  code unit 0, which the store takes in no text.
\<close>

definition cut_short :: "cond \<Rightarrow> bool" where
  "cut_short c = (case c of Cmp column operator operand \<Rightarrow> False | Or s \<Rightarrow> CHR '')'' \<in> set s)"

definition store_text :: "string \<Rightarrow> bool" where
  "store_text s = (CHR 0x00 \<notin> set s)"

definition operand_refused :: "(string \<times> string \<times> string) option \<Rightarrow> bool" where
  "operand_refused a =
     (case a of None \<Rightarrow> False | Some (column, operator, operand) \<Rightarrow> \<not> store_text operand)"

definition store_refusal :: "or_reading \<Rightarrow> cond list \<Rightarrow> pg_error option" where
  "store_refusal R conds =
     (if R = RefuseRest \<and> list_ex cut_short conds then Some RequestRefused
      else if list_ex operand_refused (concat (map comparisons conds))
      then Some InvalidByteSequence
      else None)"

text \<open>
  \<^verbatim>\<open>.from('problems').select('..., problem_matches(count)')\<close> with conditions, an order
  and a limit: each selected problem comes with the list \<^verbatim>\<open>[{ count }]\<close> of the one
  aggregate over the matches that reference it. The query answers with rows or with an
  error; \<open>None\<close> is a query that is not modelled.
\<close>

definition count_matches :: "db \<Rightarrow> string \<Rightarrow> nat" where
  "count_matches d problemId = length (filter (\<lambda>m. m_problem_id m = problemId) (problem_matches d))"

definition select_problems ::
  "or_reading \<Rightarrow> db \<Rightarrow> cond list \<Rightarrow> nat \<Rightarrow>
   (pg_error + (problem_row \<times> nat list) list) option" where
  "select_problems R d conds count =
     (if \<not> list_all covered (concat (map comparisons conds)) then None
      else
        (case store_refusal R conds of
           Some e \<Rightarrow> Some (Inl e)
         | None \<Rightarrow>
             map_option
               (\<lambda>rows. Inr (map (\<lambda>p. (p, [count_matches d (p_id p)]))
                              (take count (order_desc p_created_at rows))))
               (filter_rows (eval_conds conds) (problems d))))"

text \<open>
  The two selections from \<open>problem_matches\<close>, by problem (with an optional role) and by
  user, each row with the one row of the table its foreign key references, if there is
  one. \<open>matches_of_user\<close> is the rows of a user cut at a count; \<open>select_matches_of_user\<close> is
  the query with the number given to \<^verbatim>\<open>.limit(...)\<close>, which answers with rows or an error.
\<close>

definition select_matches_of_problem ::
  "db \<Rightarrow> string \<Rightarrow> string option \<Rightarrow> nat \<Rightarrow> (match_row \<times> user_row option) list" where
  "select_matches_of_problem d problemId roleFilter count =
     map (\<lambda>m. (m, find (\<lambda>u. u_id u = m_user_id m) (users d)))
       (take count
          (order_desc m_created_at
             (filter
                (\<lambda>m. m_problem_id m = uuid_in problemId \<and>
                     (case roleFilter of None \<Rightarrow> True | Some r \<Rightarrow> m_role m = r))
                (problem_matches d))))"

definition matches_of_user ::
  "db \<Rightarrow> string \<Rightarrow> nat option \<Rightarrow> (match_row \<times> problem_row option) list" where
  "matches_of_user d userId count =
     map (\<lambda>m. (m, find (\<lambda>p. p_id p = m_problem_id m) (problems d)))
       (limit_rows count
          (order_desc m_created_at
             (filter (\<lambda>m. m_user_id m = uuid_in userId) (problem_matches d))))"

definition select_matches_of_user ::
  "limit_policy \<Rightarrow> db \<Rightarrow> string \<Rightarrow> jsnum \<Rightarrow>
   pg_error + (match_row \<times> problem_row option) list" where
  "select_matches_of_user L d userId count =
     (case store_limit L count of
        Inl e \<Rightarrow> Inl e
      | Inr c \<Rightarrow> Inr (matches_of_user d userId c))"

section \<open>Responses\<close>

text \<open>
  The items of the two listings of matches, as the handlers build them: a collaborator is
  \<^verbatim>\<open>{ user: { id, display_name }, role, matched_at }\<close>, with \<open>null\<close> for a field of a user
  that is not there; a match of mine is \<^verbatim>\<open>{ role, matched_at, problem }\<close>. An item of the
  catalogue is the problem's seven columns and \<open>collaboratorCount\<close>.
\<close>

record collaborator =
  c_user_id :: "string option"
  c_user_display_name :: "string option"
  c_role :: string
  c_matched_at :: nat

record my_match =
  mm_role :: string
  mm_matched_at :: nat
  mm_problem :: problem_row

record problem_item =
  pi_problem :: problem_row
  collaboratorCount :: nat

datatype body =
    ErrorBody string
  | StoreErrorBody pg_error
  | OkBody
  | LoginBody string user_row
  | UserBody user_row
  | ProblemsBody "problem_item list"
  | MatchBody match_row
  | CollaboratorsBody string "collaborator list"
  | MyMatchesBody "my_match list"

record response =
  status :: nat
  body :: body

definition json :: "body \<Rightarrow> response" where
  "json b = \<lparr>status = 200, body = b\<rparr>"

definition status_json :: "nat \<Rightarrow> body \<Rightarrow> response" where
  "status_json n b = \<lparr>status = n, body = b\<rparr>"

section \<open>The identity layer\<close>

text \<open>
  The server signs and verifies tokens with the \<open>jsonwebtoken\<close> package, which adds the
  time claims and checks them around the three primitives of JSON Web Signature. The
  primitives and the secret are the environment of the server: \<open>jws_sign\<close> serialises a
  payload and signs it under a secret, \<open>jws_decode\<close> reads the payload of a token (none
  when the text is malformed or a time claim is not a number), \<open>jws_verify\<close> checks a
  token's signature under a secret. Times are seconds. The fields of a payload are the
  claims \<open>sub\<close>, \<open>typ\<close>, \<open>iat\<close>, \<open>exp\<close> and \<open>nbf\<close>.
\<close>

record jwt_payload =
  jwt_sub :: jsval
  jwt_typ :: jsval
  jwt_iat :: "nat option"
  jwt_exp :: "nat option"
  jwt_nbf :: "nat option"

record env =
  JWT_SECRET :: string
  jws_sign :: "jwt_payload \<Rightarrow> string \<Rightarrow> string"
  jws_decode :: "string \<Rightarrow> jwt_payload option"
  jws_verify :: "string \<Rightarrow> string \<Rightarrow> bool"

text \<open>
  \<^verbatim>\<open>jwt.sign({ sub: userId, typ: 'access' }, JWT_SECRET, { expiresIn: '30d' })\<close>: the
  package stamps \<open>iat\<close> with the clock and sets \<open>exp\<close> thirty days (2592000 seconds) later.
\<close>

definition jwt_sign :: "env \<Rightarrow> nat \<Rightarrow> jsval \<Rightarrow> string" where
  "jwt_sign E clock userId =
     jws_sign E
       \<lparr>jwt_sub = userId, jwt_typ = JString ''access'', jwt_iat = Some clock,
        jwt_exp = Some (clock + 2592000), jwt_nbf = None\<rparr>
       (JWT_SECRET E)"

text \<open>
  \<^verbatim>\<open>jwt.verify(token, JWT_SECRET)\<close>: it throws (here \<open>None\<close>) on a malformed token, on a
  signature that does not verify, before \<open>nbf\<close>, and from \<open>exp\<close> on; otherwise it returns
  the payload.
\<close>

definition jwt_verify :: "env \<Rightarrow> nat \<Rightarrow> string \<Rightarrow> jwt_payload option" where
  "jwt_verify E clock token =
     (case jws_decode E token of
        None \<Rightarrow> None
      | Some payload \<Rightarrow>
          if \<not> jws_verify E token (JWT_SECRET E) then None
          else if (case jwt_nbf payload of Some n \<Rightarrow> clock < n | None \<Rightarrow> False) then None
          else if (case jwt_exp payload of Some e \<Rightarrow> e \<le> clock | None \<Rightarrow> False) then None
          else Some payload)"

text \<open>
  The text of a token in its compact form is base64url with dots between the parts: it
  is not empty and holds no white space.
\<close>

definition token_text :: "string \<Rightarrow> bool" where
  "token_text t = (t \<noteq> [] \<and> list_all (\<lambda>c. \<not> isWhiteSpace c) t)"

text \<open>
  \<^verbatim>\<open>header.match(/^Bearer\s+(.+)$/i)\<close>, the first group of the match: the word in any
  case, white space, then everything up to the end of the header, which must hold no
  line terminator. \<open>\s+\<close> is greedy; when the header ends in white space it hands its last
  character over to the group.
\<close>

definition bearer_match :: "string \<Rightarrow> string option" where
  "bearer_match header =
     (if length header < 6 \<or> toLowerCase (take 6 header) \<noteq> ''bearer'' then None
      else
        (let ws = takeWhile isWhiteSpace (drop 6 header);
             r = dropWhile isWhiteSpace (drop 6 header)
         in if ws = [] then None
            else if r \<noteq> [] then (if list_ex isLineTerminator r then None else Some r)
            else if length ws < 2 \<or> isLineTerminator (last ws) then None
            else Some [last ws]))"

text \<open>
  \<open>requireAuth\<close> answers 401 itself (\<open>Inl\<close>) or hands the user id of the token to the
  handler (\<open>Inr\<close>). \<open>authorization\<close> is the header of the request, if it has one.
\<close>

definition requireAuth :: "env \<Rightarrow> nat \<Rightarrow> string option \<Rightarrow> response + string" where
  "requireAuth E clock authorization =
     (let header = (case authorization of Some h \<Rightarrow> h | None \<Rightarrow> [])
      in case bearer_match header of
           None \<Rightarrow> Inl (status_json 401 (ErrorBody ''Missing Authorization: Bearer <token>''))
         | Some token \<Rightarrow>
             (case jwt_verify E clock token of
                None \<Rightarrow> Inl (status_json 401 (ErrorBody ''Invalid or expired token''))
              | Some payload \<Rightarrow>
                  if \<not> truthy (jwt_sub payload) \<or> \<not> isUuid (jwt_sub payload)
                  then Inl (status_json 401 (ErrorBody ''Invalid token payload''))
                  else Inr (the_string (jwt_sub payload))))"

text \<open>\<^verbatim>\<open>POST /login\<close>: \<open>userId\<close> is the field of the JSON body.\<close>

definition login :: "env \<Rightarrow> nat \<Rightarrow> db \<Rightarrow> jsval \<Rightarrow> response" where
  "login E clock d userId =
     (if \<not> isUuid userId then status_json 400 (ErrorBody ''userId must be a uuid'')
      else
        (case maybeSingle (filter (\<lambda>u. u_id u = uuid_in (the_string userId)) (users d)) of
           Inl e \<Rightarrow> status_json 500 (StoreErrorBody e)
         | Inr None \<Rightarrow> status_json 404 (ErrorBody ''User not found'')
         | Inr (Some user) \<Rightarrow> json (LoginBody (jwt_sign E clock userId) user)))"

text \<open>\<^verbatim>\<open>GET /me\<close>, behind \<open>requireAuth\<close>.\<close>

definition me :: "env \<Rightarrow> nat \<Rightarrow> db \<Rightarrow> string option \<Rightarrow> response" where
  "me E clock d authorization =
     (case requireAuth E clock authorization of
        Inl refusal \<Rightarrow> refusal
      | Inr userId \<Rightarrow>
          (case maybeSingle (filter (\<lambda>u. u_id u = uuid_in userId) (users d)) of
             Inl e \<Rightarrow> status_json 500 (StoreErrorBody e)
           | Inr None \<Rightarrow> status_json 404 (ErrorBody ''User not found'')
           | Inr (Some user) \<Rightarrow> json (UserBody user)))"

section \<open>The match ledger\<close>

text \<open>
  The handler of \<^verbatim>\<open>POST /problems/:id/match\<close>, after \<open>requireAuth\<close> has set \<open>userId\<close>:
  \<open>problemId\<close> is the path parameter, \<open>role\<close> the field of the JSON body. It answers with a
  response and the store it leaves.
\<close>

definition setMatch ::
  "string \<Rightarrow> nat \<Rightarrow> db \<Rightarrow> string \<Rightarrow> string \<Rightarrow> jsval \<Rightarrow> response \<times> db" where
  "setMatch new_id now d userId problemId role =
     (if \<not> isUuid (JString problemId)
      then (status_json 400 (ErrorBody ''problem id must be a uuid''), d)
      else
        (case role of
           JString r \<Rightarrow>
             if r \<noteq> ''SOLVER'' \<and> r \<noteq> ''AFFECTED''
             then (status_json 400 (ErrorBody ''role must be SOLVER or AFFECTED''), d)
             else
               (case maybeSingle (filter (\<lambda>p. p_id p = uuid_in problemId) (problems d)) of
                  Inl e \<Rightarrow> (status_json 500 (StoreErrorBody e), d)
                | Inr None \<Rightarrow> (status_json 404 (ErrorBody ''Problem not found''), d)
                | Inr (Some problem) \<Rightarrow>
                    (case upsert_match new_id now d userId problemId r of
                       Inl e \<Rightarrow> (status_json 500 (StoreErrorBody e), d)
                     | Inr (row, d') \<Rightarrow> (json (MatchBody row), d')))
         | _ \<Rightarrow> (status_json 400 (ErrorBody ''role must be SOLVER or AFFECTED''), d)))"

text \<open>The handler of \<^verbatim>\<open>DELETE /problems/:id/match\<close>, after \<open>requireAuth\<close>.\<close>

definition removeMatch :: "db \<Rightarrow> string \<Rightarrow> string \<Rightarrow> response \<times> db" where
  "removeMatch d userId problemId =
     (if \<not> isUuid (JString problemId)
      then (status_json 400 (ErrorBody ''problem id must be a uuid''), d)
      else (json OkBody, delete_match d userId problemId))"

text \<open>
  The handler of \<^verbatim>\<open>GET /problems/:id/users\<close>; \<open>role\<close> is the parameter of the query
  string.
\<close>

definition role_filter :: "qval option \<Rightarrow> string option" where
  "role_filter q =
     (let role = (case q of Some (QStr s) \<Rightarrow> toUpperCase (trim s) | _ \<Rightarrow> Some [])
      in if role = Some ''SOLVER'' \<or> role = Some ''AFFECTED'' then role else None)"

definition collaborator_item :: "match_row \<times> user_row option \<Rightarrow> collaborator" where
  "collaborator_item r =
     \<lparr>c_user_id = map_option u_id (snd r),
      c_user_display_name = Option.bind (snd r) u_display_name,
      c_role = m_role (fst r),
      c_matched_at = m_created_at (fst r)\<rparr>"

definition listCollaborators :: "db \<Rightarrow> string \<Rightarrow> qval option \<Rightarrow> response" where
  "listCollaborators d problemId role =
     (if \<not> isUuid (JString problemId)
      then status_json 400 (ErrorBody ''problem id must be a uuid'')
      else
        json (CollaboratorsBody problemId
          (map collaborator_item
             (select_matches_of_problem d problemId (role_filter role) 500))))"

text \<open>
  The handler of \<^verbatim>\<open>GET /me/matches\<close>, after \<open>requireAuth\<close>; \<open>limit\<close> is the parameter of
  the query string. \<open>matches_limit\<close> is the number it hands to \<^verbatim>\<open>.limit(...)\<close>. An error of
  the store is answered with 500; of the rows, those with a problem become items.
\<close>

definition matches_limit :: "qval option \<Rightarrow> jsnum" where
  "matches_limit limit =
     Math_min (case limit of None \<Rightarrow> Fin 200 | Some v \<Rightarrow> Number v) (Fin 500)"

definition my_match_item :: "match_row \<times> problem_row option \<Rightarrow> my_match" where
  "my_match_item r =
     \<lparr>mm_role = m_role (fst r), mm_matched_at = m_created_at (fst r),
      mm_problem = the (snd r)\<rparr>"

definition listMyMatches :: "limit_policy \<Rightarrow> db \<Rightarrow> string \<Rightarrow> qval option \<Rightarrow> response" where
  "listMyMatches L d userId limit =
     (case select_matches_of_user L d userId (matches_limit limit) of
        Inl e \<Rightarrow> status_json 500 (StoreErrorBody e)
      | Inr rows \<Rightarrow>
          json (MyMatchesBody (map my_match_item (filter (\<lambda>r. snd r \<noteq> None) rows))))"

section \<open>The problem catalogue\<close>

text \<open>
  The handler of \<^verbatim>\<open>GET /problems\<close>. A parameter of the query string counts when it is a
  string, trimmed; an empty one adds no condition. An error of the store is answered
  with 500. \<open>None\<close> is a request outside what the embedding covers: a country code that
  leaves the covered code units in upper case, or a query that is not modelled.
\<close>

definition string_param :: "qval option \<Rightarrow> string" where
  "string_param q = (case q of Some (QStr s) \<Rightarrow> trim s | _ \<Rightarrow> [])"

definition problem_conds :: "string \<Rightarrow> string \<Rightarrow> string \<Rightarrow> string \<Rightarrow> cond list" where
  "problem_conds search category location country =
     (if category \<noteq> [] then [Cmp ''category'' ''eq'' category] else []) @
     (if country \<noteq> [] then [Cmp ''country_code'' ''eq'' country] else []) @
     (if location \<noteq> [] then [Cmp ''location'' ''ilike'' (''%'' @ location @ ''%'')] else []) @
     (if search \<noteq> []
      then [Or (''title.ilike.%'' @ search @ ''%,description.ilike.%'' @ search @ ''%'')]
      else [])"

definition problem_item_of :: "problem_row \<times> nat list \<Rightarrow> problem_item" where
  "problem_item_of r =
     \<lparr>pi_problem = fst r,
      collaboratorCount = (case snd r of [] \<Rightarrow> 0 | c # _ \<Rightarrow> c)\<rparr>"

definition searchProblems ::
  "or_reading \<Rightarrow> db \<Rightarrow> qval option \<Rightarrow> qval option \<Rightarrow> qval option \<Rightarrow> qval option \<Rightarrow>
   response option" where
  "searchProblems R d q_search q_category q_location q_country_code =
     (let search = string_param q_search;
          category = string_param q_category;
          location = string_param q_location
      in case toUpperCase (string_param q_country_code) of
           None \<Rightarrow> None
         | Some country \<Rightarrow>
             map_option
               (\<lambda>answer.
                  case answer of
                    Inl e \<Rightarrow> status_json 500 (StoreErrorBody e)
                  | Inr rows \<Rightarrow> json (ProblemsBody (map problem_item_of rows)))
               (select_problems R d (problem_conds search category location country) 200))"

section \<open>Requests that change the store\<close>

text \<open>
  The two operations on \<open>problem_matches\<close>, and the store after a sequence of them. A
  \<open>SetMatch\<close> carries what the store's defaults deliver for a new row.
\<close>

datatype request =
    SetMatch string nat string string jsval
  | RemoveMatch string string

fun handle :: "db \<Rightarrow> request \<Rightarrow> response \<times> db" where
  "handle d (SetMatch new_id now userId problemId role) =
     setMatch new_id now d userId problemId role"
| "handle d (RemoveMatch userId problemId) = removeMatch d userId problemId"

fun run :: "db \<Rightarrow> request list \<Rightarrow> db" where
  "run d [] = d"
| "run d (r # rs) = run (snd (handle d r)) rs"

section \<open>The constraints of the schema\<close>

text \<open>
  \<open>match_inv\<close> is \<^verbatim>\<open>unique (user_id, problem_id)\<close> together with the check on \<open>role\<close>;
  \<open>schema_ok\<close> adds the primary keys and the foreign keys.
\<close>

definition match_inv :: "db \<Rightarrow> bool" where
  "match_inv d =
     (distinct (map match_key (problem_matches d)) \<and>
      (\<forall>m \<in> set (problem_matches d). m_role m = ''SOLVER'' \<or> m_role m = ''AFFECTED''))"

definition schema_ok :: "db \<Rightarrow> bool" where
  "schema_ok d =
     (distinct (map u_id (users d)) \<and>
      distinct (map p_id (problems d)) \<and>
      distinct (map m_id (problem_matches d)) \<and>
      match_inv d \<and>
      (\<forall>m \<in> set (problem_matches d).
         m_user_id m \<in> set (map u_id (users d)) \<and>
         m_problem_id m \<in> set (map p_id (problems d))))"

section \<open>Words of the specification\<close>

text \<open>
  The specification speaks of matching a value case-insensitively: two texts are equal
  up to the case of their letters, which is to say equal in lower case.
\<close>

definition ci_equal :: "string \<Rightarrow> string \<Rightarrow> bool" where
  "ci_equal a b = (toLowerCase a = toLowerCase b)"

text \<open>
  The specification speaks of a case-insensitive substring match, and of the predicate of
  the catalogue: each filter that is given (not empty) must hold, the category and the
  country code by equality, the location as a substring of the problem's location, the
  search as a substring of the title or of the description.
\<close>

definition ci_contains :: "string \<Rightarrow> string \<Rightarrow> bool" where
  "ci_contains needle text = sublist (toLowerCase needle) (toLowerCase text)"

definition spec_matches :: "string \<Rightarrow> string \<Rightarrow> string \<Rightarrow> string \<Rightarrow> problem_row \<Rightarrow> bool" where
  "spec_matches search category location country p =
     ((category = [] \<or> p_category p = category) \<and>
      (country = [] \<or> p_country_code p = Some country) \<and>
      (location = [] \<or> ci_contains location (p_location p)) \<and>
      (search = [] \<or> ci_contains search (p_title p) \<or> ci_contains search (p_description p)))"

text \<open>
  A text without the characters that a pattern of \<open>LIKE\<close> reads specially (\<open>%\<close>, \<open>_\<close>, the
  backslash, and \<open>*\<close>, which the interface of the store turns into \<open>%\<close>), and a text without
  the two characters that end an operand in the text of an \<open>or\<close>.
\<close>

definition like_plain :: "string \<Rightarrow> bool" where
  "like_plain s = list_all (\<lambda>c. c \<notin> set ''%_*'' \<and> c \<noteq> CHR 0x5C) s"

definition or_plain :: "string \<Rightarrow> bool" where
  "or_plain s = list_all (\<lambda>c. c \<notin> set '',)'') s"

section \<open>A small store\<close>

text \<open>One user, one problem and the user's match to it, for the concrete instances below.\<close>

definition ex_user :: user_row where
  "ex_user =
     \<lparr>u_id = ''11111111-1111-4111-8111-111111111111'', u_display_name = Some ''Ana'',
      u_created_at = 10\<rparr>"

definition ex_problem :: problem_row where
  "ex_problem =
     \<lparr>p_id = ''aaaaaaaa-aaaa-4aaa-8aaa-aaaaaaaaaaaa'', p_title = ''Road flooding'',
      p_description = ''The main road floods when it rains'',
      p_category = ''infrastructure'', p_location = ''Lima'', p_country_code = Some ''PE'',
      p_created_at = 20\<rparr>"

definition ex_match :: match_row where
  "ex_match =
     \<lparr>m_id = ''m1'', m_user_id = u_id ex_user, m_problem_id = p_id ex_problem,
      m_role = ''SOLVER'', m_created_at = 30\<rparr>"

definition ex_db :: db where
  "ex_db = \<lparr>users = [ex_user], problems = [ex_problem], problem_matches = [ex_match]\<rparr>"

definition ex_requests :: "request list" where
  "ex_requests =
     [SetMatch ''m2'' 40 (u_id ex_user) (p_id ex_problem) (JString ''AFFECTED''),
      RemoveMatch (u_id ex_user) ''AAAAAAAA-AAAA-4AAA-8AAA-AAAAAAAAAAAA'',
      SetMatch ''m3'' 50 (u_id ex_user) (p_id ex_problem) (JString ''SOLVER''),
      SetMatch ''m4'' 60 ''11111111-1111-4111-8111-111111111111''
        ''AAAAAAAA-AAAA-4AAA-8AAA-AAAAAAAAAAAA'' (JString ''AFFECTED'')]"

text \<open>
  A stand-in for the signature primitives, for the concrete instances: a token is the
  user id between a fixed head and the secret, and verifies when it ends in the secret.
\<close>

definition ex_env :: env where
  "ex_env =
     \<lparr>JWT_SECRET = ''s3cret'',
      jws_sign = (\<lambda>p k. ''header.'' @ the_string (jwt_sub p) @ ''.'' @ k),
      jws_decode = (\<lambda>t. Some \<lparr>jwt_sub = JString (take 36 (drop 7 t)), jwt_typ = JString ''access'',
                              jwt_iat = Some 1000, jwt_exp = Some 2593000, jwt_nbf = None\<rparr>),
      jws_verify = (\<lambda>t k. drop 44 t = k)\<rparr>"

text \<open>
  A second user, who is affected by the problem, and a store that has lost that user and
  the problem while their matches stayed.
\<close>

definition ex_user2 :: user_row where
  "ex_user2 =
     \<lparr>u_id = ''22222222-2222-4222-8222-222222222222'', u_display_name = None,
      u_created_at = 11\<rparr>"

definition ex_match2 :: match_row where
  "ex_match2 =
     \<lparr>m_id = ''m2'', m_user_id = u_id ex_user2, m_problem_id = p_id ex_problem,
      m_role = ''AFFECTED'', m_created_at = 35\<rparr>"

definition ex_db2 :: db where
  "ex_db2 =
     \<lparr>users = [ex_user, ex_user2], problems = [ex_problem],
      problem_matches = [ex_match, ex_match2]\<rparr>"

definition ex_orphans :: db where
  "ex_orphans = \<lparr>users = [ex_user], problems = [], problem_matches = [ex_match, ex_match2]\<rparr>"

text \<open>
  A second problem, in a place whose name has an accented letter, and the catalogue of
  the two problems.
\<close>

definition ex_bogota :: problem_row where
  "ex_bogota =
     \<lparr>p_id = ''bbbbbbbb-bbbb-4bbb-8bbb-bbbbbbbbbbbb'', p_title = ''Water cuts'',
      p_description = ''No water in the evenings'', p_category = ''services'',
      p_location = ''Bogot'' @ [CHR 0xE1] @ '', CO'', p_country_code = Some ''CO'',
      p_created_at = 25\<rparr>"

definition ex_catalogue :: db where
  "ex_catalogue =
     \<lparr>users = [ex_user], problems = [ex_problem, ex_bogota], problem_matches = [ex_match]\<rparr>"

text \<open>The first user with seven matches, to seven problems.\<close>

definition ex_pid :: "char \<Rightarrow> string" where
  "ex_pid c = c # ''aaaaaaa-aaaa-4aaa-8aaa-aaaaaaaaaaaa''"

definition ex_seven :: db where
  "ex_seven =
     \<lparr>users = [ex_user],
      problems = map (\<lambda>c. ex_problem\<lparr>p_id := ex_pid c\<rparr>) ''1234567'',
      problem_matches =
        map (\<lambda>(c, t). \<lparr>m_id = [c], m_user_id = u_id ex_user, m_problem_id = ex_pid c,
                        m_role = ''SOLVER'', m_created_at = t\<rparr>)
          (zip ''1234567'' [31, 37, 32, 36, 33, 35, 34])\<rparr>"

section \<open>Properties\<close>

lemmas ex_defs = ex_user_def ex_problem_def ex_match_def ex_db_def

subsection \<open>Removing a match\<close>

lemma filter_other_keys:
  "k \<notin> set (map f xs) \<Longrightarrow> filter (\<lambda>x. f x \<noteq> k) xs = xs"
  by (induction xs) auto

text \<open>
  C8. \<open>removeMatch\<close> is idempotent: for every user and every syntactically valid problem
  id it answers success and leaves the store without the match of the pair, whether such
  a row was there or not (when none was, the store is unchanged); a second run gives the
  same response and the same store.
\<close>

theorem removeMatch_idempotent:
  assumes "isUuid (JString problemId)"
  shows "fst (removeMatch d userId problemId) = json OkBody \<and>
         snd (removeMatch d userId problemId) =
           d\<lparr>problem_matches :=
               filter (\<lambda>m. match_key m \<noteq> (uuid_in userId, uuid_in problemId))
                 (problem_matches d)\<rparr> \<and>
         ((uuid_in userId, uuid_in problemId) \<notin> set (map match_key (problem_matches d)) \<longrightarrow>
            removeMatch d userId problemId = (json OkBody, d)) \<and>
         removeMatch (snd (removeMatch d userId problemId)) userId problemId =
           removeMatch d userId problemId"
proof -
  let ?k = "(uuid_in userId, uuid_in problemId)"
  have del: "delete_match d userId problemId =
      d\<lparr>problem_matches := filter (\<lambda>m. match_key m \<noteq> ?k) (problem_matches d)\<rparr>"
    by (simp add: delete_match_def match_key_def)
  have absent: "delete_match d userId problemId = d"
    if "?k \<notin> set (map match_key (problem_matches d))"
  proof -
    from that have "filter (\<lambda>m. match_key m \<noteq> ?k) (problem_matches d) = problem_matches d"
      by (rule filter_other_keys)
    then show ?thesis by (simp add: del)
  qed
  have twice: "delete_match (delete_match d userId problemId) userId problemId =
      delete_match d userId problemId"
    by (simp add: delete_match_def)
  from assms show ?thesis
    by (simp add: removeMatch_def del [symmetric] absent twice)
qed

theorem removeMatch_idempotent_witness:
  "isUuid (JString ''AAAAAAAA-AAAA-4AAA-8AAA-AAAAAAAAAAAA'') \<and>
   removeMatch ex_db (u_id ex_user) ''AAAAAAAA-AAAA-4AAA-8AAA-AAAAAAAAAAAA'' =
     (json OkBody, ex_db\<lparr>problem_matches := []\<rparr>) \<and>
   removeMatch (ex_db\<lparr>problem_matches := []\<rparr>) (u_id ex_user)
       ''AAAAAAAA-AAAA-4AAA-8AAA-AAAAAAAAAAAA'' =
     (json OkBody, ex_db\<lparr>problem_matches := []\<rparr>)"
proof -
  let ?p = "''AAAAAAAA-AAAA-4AAA-8AAA-AAAAAAAAAAAA''"
  have h: "isUuid (JString ?p)" by code_simp
  have e: "snd (removeMatch ex_db (u_id ex_user) ?p) = ex_db\<lparr>problem_matches := []\<rparr>"
    unfolding ex_defs by code_simp
  from removeMatch_idempotent [OF h, of ex_db "u_id ex_user"] e h show ?thesis
    by (metis prod.collapse)
qed

subsection \<open>Setting a match\<close>

lemma map_key_update:
  "map match_key (map (\<lambda>x. if match_key x = k then x\<lparr>m_role := r\<rparr> else x) ms) = map match_key ms"
  by (induction ms) (auto simp: match_key_def)

lemma find_None_key:
  "find (\<lambda>m. f m = k) ms = None \<Longrightarrow> k \<notin> set (map f ms)"
  by (auto simp: find_None_iff)

lemma filter_key_absent:
  "k \<notin> set (map f xs) \<Longrightarrow> filter (\<lambda>x. f x = k) xs = []"
  by (induction xs) auto

lemma filter_key_unique:
  "distinct (map f xs) \<Longrightarrow> find (\<lambda>x. f x = k) xs = Some m \<Longrightarrow> filter (\<lambda>x. f x = k) xs = [m]"
proof (induction xs)
  case Nil
  then show ?case by simp
next
  case (Cons x xs)
  show ?case
  proof (cases "f x = k")
    case True
    with Cons.prems have "m = x" and "k \<notin> set (map f xs)" by auto
    then show ?thesis using True by (simp add: filter_key_absent)
  next
    case False
    with Cons show ?thesis by simp
  qed
qed

lemma filter_key_member:
  "distinct (map f xs) \<Longrightarrow> k \<in> set (map f xs) \<Longrightarrow> \<exists>m. filter (\<lambda>x. f x = k) xs = [m]"
proof -
  assume d: "distinct (map f xs)" and k: "k \<in> set (map f xs)"
  from k obtain m where "find (\<lambda>x. f x = k) xs = Some m"
    by (cases "find (\<lambda>x. f x = k) xs") (auto simp: find_None_iff)
  with d show ?thesis by (auto dest: filter_key_unique)
qed

lemma update_role_filter:
  "filter (\<lambda>x. match_key x = k) (map (\<lambda>x. if match_key x = k then x\<lparr>m_role := r\<rparr> else x) ms) =
   map (\<lambda>x. x\<lparr>m_role := r\<rparr>) (filter (\<lambda>x. match_key x = k) ms)"
  by (induction ms) (auto simp: match_key_def)

lemma update_role_others:
  "filter (\<lambda>x. match_key x \<noteq> k) (map (\<lambda>x. if match_key x = k then x\<lparr>m_role := r\<rparr> else x) ms) =
   filter (\<lambda>x. match_key x \<noteq> k) ms"
  by (induction ms) (auto simp: match_key_def)

text \<open>What a successful upsert leaves.\<close>

lemma upsert_match_result:
  assumes role: "r = ''SOLVER'' \<or> r = ''AFFECTED''"
    and keys: "distinct (map match_key (problem_matches d))"
    and ins: "(uuid_in u, uuid_in p) \<notin> set (map match_key (problem_matches d)) \<Longrightarrow>
              new_id \<notin> set (map m_id (problem_matches d)) \<and>
              uuid_in u \<in> set (map u_id (users d)) \<and>
              uuid_in p \<in> set (map p_id (problems d))"
  shows "\<exists>row d'. upsert_match new_id now d u p r = Inr (row, d') \<and>
           filter (\<lambda>m. match_key m = (uuid_in u, uuid_in p)) (problem_matches d') = [row] \<and>
           m_role row = r \<and> m_user_id row = uuid_in u \<and> m_problem_id row = uuid_in p \<and>
           filter (\<lambda>m. match_key m \<noteq> (uuid_in u, uuid_in p)) (problem_matches d') =
             filter (\<lambda>m. match_key m \<noteq> (uuid_in u, uuid_in p)) (problem_matches d) \<and>
           users d' = users d \<and> problems d' = problems d"
proof -
  let ?k = "(uuid_in u, uuid_in p)"
  show ?thesis
  proof (cases "find (\<lambda>m. match_key m = ?k) (problem_matches d)")
    case None
    then have absent: "?k \<notin> set (map match_key (problem_matches d))"
      by (rule find_None_key)
    let ?row = "\<lparr>m_id = new_id, m_user_id = uuid_in u, m_problem_id = uuid_in p,
                 m_role = r, m_created_at = now\<rparr>"
    from ins [OF absent] None role
    have "upsert_match new_id now d u p r =
            Inr (?row, d\<lparr>problem_matches := problem_matches d @ [?row]\<rparr>)"
      by (auto simp: upsert_match_def Let_def)
    moreover have "filter (\<lambda>m. match_key m = ?k) (problem_matches d @ [?row]) = [?row]"
    proof -
      have "match_key ?row = ?k" by (simp add: match_key_def)
      with filter_key_absent [OF absent] show ?thesis by simp
    qed
    moreover have "filter (\<lambda>m. match_key m \<noteq> ?k) (problem_matches d @ [?row]) =
        filter (\<lambda>m. match_key m \<noteq> ?k) (problem_matches d)"
    proof -
      have "match_key ?row = ?k" by (simp add: match_key_def)
      then show ?thesis by simp
    qed
    ultimately show ?thesis by simp
  next
    case (Some m)
    let ?upd = "\<lambda>x. if match_key x = ?k then x\<lparr>m_role := r\<rparr> else x"
    from Some have mk: "match_key m = ?k"
      by (auto simp: find_Some_iff)
    from Some role
    have "upsert_match new_id now d u p r =
            Inr (m\<lparr>m_role := r\<rparr>, d\<lparr>problem_matches := map ?upd (problem_matches d)\<rparr>)"
      by (auto simp: upsert_match_def Let_def)
    moreover have "filter (\<lambda>x. match_key x = ?k) (map ?upd (problem_matches d)) = [m\<lparr>m_role := r\<rparr>]"
      using filter_key_unique [OF keys Some] by (simp only: update_role_filter) simp
    moreover have "filter (\<lambda>x. match_key x \<noteq> ?k) (map ?upd (problem_matches d)) =
        filter (\<lambda>x. match_key x \<noteq> ?k) (problem_matches d)"
      by (rule update_role_others)
    moreover have "m_user_id (m\<lparr>m_role := r\<rparr>) = uuid_in u" "m_problem_id (m\<lparr>m_role := r\<rparr>) = uuid_in p"
      using mk by (simp_all add: match_key_def)
    ultimately show ?thesis by simp
  qed
qed

lemma setMatch_result:
  assumes uuid: "isUuid (JString p)"
    and role: "r = ''SOLVER'' \<or> r = ''AFFECTED''"
    and pk: "distinct (map p_id (problems d))"
    and prob: "uuid_in p \<in> set (map p_id (problems d))"
    and keys: "distinct (map match_key (problem_matches d))"
    and ins: "(uuid_in u, uuid_in p) \<notin> set (map match_key (problem_matches d)) \<Longrightarrow>
              new_id \<notin> set (map m_id (problem_matches d)) \<and>
              uuid_in u \<in> set (map u_id (users d))"
  shows "\<exists>row d'. setMatch new_id now d u p (JString r) = (json (MatchBody row), d') \<and>
           filter (\<lambda>m. match_key m = (uuid_in u, uuid_in p)) (problem_matches d') = [row] \<and>
           m_role row = r \<and> m_user_id row = uuid_in u \<and> m_problem_id row = uuid_in p \<and>
           filter (\<lambda>m. match_key m \<noteq> (uuid_in u, uuid_in p)) (problem_matches d') =
             filter (\<lambda>m. match_key m \<noteq> (uuid_in u, uuid_in p)) (problem_matches d) \<and>
           users d' = users d \<and> problems d' = problems d"
proof -
  from filter_key_member [OF pk prob] obtain q
    where q: "filter (\<lambda>x. p_id x = uuid_in p) (problems d) = [q]" by blast
  from upsert_match_result [OF role keys, of u p new_id now] ins prob
  obtain row d' where up: "upsert_match new_id now d u p r = Inr (row, d')"
    and rest: "filter (\<lambda>m. match_key m = (uuid_in u, uuid_in p)) (problem_matches d') = [row]"
      "m_role row = r" "m_user_id row = uuid_in u" "m_problem_id row = uuid_in p"
      "filter (\<lambda>m. match_key m \<noteq> (uuid_in u, uuid_in p)) (problem_matches d') =
         filter (\<lambda>m. match_key m \<noteq> (uuid_in u, uuid_in p)) (problem_matches d)"
      "users d' = users d" "problems d' = problems d"
    by blast
  from uuid role q up have "setMatch new_id now d u p (JString r) = (json (MatchBody row), d')"
    by (auto simp: setMatch_def maybeSingle_def)
  with rest show ?thesis by blast
qed

lemma upsert_match_inv:
  assumes inv: "match_inv d" and up: "upsert_match new_id now d u p r = Inr (row, d')"
  shows "match_inv d'"
proof -
  let ?k = "(uuid_in u, uuid_in p)"
  from up have role: "r = ''SOLVER'' \<or> r = ''AFFECTED''"
    by (auto simp: upsert_match_def Let_def split: if_splits)
  show ?thesis
  proof (cases "find (\<lambda>m. match_key m = ?k) (problem_matches d)")
    case None
    with up role have d': "d' = d\<lparr>problem_matches := problem_matches d @ [row]\<rparr>"
      and row: "match_key row = ?k" "m_role row = r"
      by (auto simp: upsert_match_def Let_def match_key_def split: if_splits)
    from None have "?k \<notin> set (map match_key (problem_matches d))"
      by (rule find_None_key)
    with inv role row show ?thesis
      by (auto simp: match_inv_def d')
  next
    case (Some m)
    with up role have d': "d' = d\<lparr>problem_matches :=
        map (\<lambda>x. if match_key x = ?k then x\<lparr>m_role := r\<rparr> else x) (problem_matches d)\<rparr>"
      by (auto simp: upsert_match_def Let_def split: if_splits)
    have "distinct (map match_key (problem_matches d'))"
      using inv unfolding d' match_inv_def by (simp del: map_map add: map_key_update)
    moreover have "\<forall>m \<in> set (problem_matches d'). m_role m = ''SOLVER'' \<or> m_role m = ''AFFECTED''"
      using inv role by (auto simp: d' match_inv_def)
    ultimately show ?thesis by (simp add: match_inv_def)
  qed
qed

lemma delete_match_inv: "match_inv d \<Longrightarrow> match_inv (delete_match d u p)"
  by (auto simp: match_inv_def delete_match_def distinct_map_filter)

lemma setMatch_inv: "match_inv d \<Longrightarrow> match_inv (snd (setMatch new_id now d u p role))"
  by (auto simp: setMatch_def status_json_def json_def dest: upsert_match_inv
      split: jsval.splits sum.splits option.splits if_splits)

lemma removeMatch_inv: "match_inv d \<Longrightarrow> match_inv (snd (removeMatch d u p))"
  by (simp add: removeMatch_def delete_match_inv)

lemma handle_inv: "match_inv d \<Longrightarrow> match_inv (snd (handle d r))"
  by (cases r) (simp_all add: setMatch_inv removeMatch_inv)

lemma run_inv: "match_inv d \<Longrightarrow> match_inv (run d rs)"
  by (induction rs arbitrary: d) (simp_all add: handle_inv)

lemma distinct_key_le1:
  "distinct (map f xs) \<Longrightarrow> length (filter (\<lambda>x. f x = k) xs) \<le> 1"
  by (induction xs) (auto simp: filter_empty_conv image_iff)

text \<open>
  C1. From a store in which the pair \<open>(user_id, problem_id)\<close> is unique among the matches
  and every role is \<open>SOLVER\<close> or \<open>AFFECTED\<close>, every store reached by \<open>setMatch\<close> and
  \<open>removeMatch\<close> requests is such a store: each of the two operations keeps the invariant,
  so for every user and problem there is at most one match row of the pair, and every
  role is one of the two.
\<close>

theorem match_invariant_preserved:
  assumes "match_inv d"
  shows "match_inv (snd (setMatch new_id now d userId problemId role)) \<and>
         match_inv (snd (removeMatch d userId problemId)) \<and>
         match_inv (run d reqs) \<and>
         length (filter (\<lambda>m. m_user_id m = u \<and> m_problem_id m = p)
                   (problem_matches (run d reqs))) \<le> 1 \<and>
         (\<forall>m \<in> set (problem_matches (run d reqs)). m_role m = ''SOLVER'' \<or> m_role m = ''AFFECTED'')"
proof -
  from assms have inv: "match_inv (run d reqs)" by (rule run_inv)
  then have "distinct (map match_key (problem_matches (run d reqs)))"
    by (simp add: match_inv_def)
  then have "length (filter (\<lambda>m. match_key m = (u, p)) (problem_matches (run d reqs))) \<le> 1"
    by (rule distinct_key_le1)
  then have "length (filter (\<lambda>m. m_user_id m = u \<and> m_problem_id m = p)
                   (problem_matches (run d reqs))) \<le> 1"
    by (simp add: match_key_def)
  with inv assms show ?thesis
    by (simp add: setMatch_inv removeMatch_inv) (simp add: match_inv_def)
qed

theorem match_invariant_preserved_witness:
  "match_inv ex_db \<and>
   problem_matches (run ex_db ex_requests) =
     [\<lparr>m_id = ''m3'', m_user_id = u_id ex_user, m_problem_id = p_id ex_problem,
       m_role = ''AFFECTED'', m_created_at = 50\<rparr>] \<and>
   match_inv (run ex_db ex_requests) \<and>
   length (filter (\<lambda>m. m_user_id m = u_id ex_user \<and> m_problem_id m = p_id ex_problem)
             (problem_matches (run ex_db ex_requests))) \<le> 1"
proof -
  have h: "match_inv ex_db"
    unfolding match_inv_def ex_defs by code_simp
  have e: "problem_matches (run ex_db ex_requests) =
     [\<lparr>m_id = ''m3'', m_user_id = u_id ex_user, m_problem_id = p_id ex_problem,
       m_role = ''AFFECTED'', m_created_at = 50\<rparr>]"
    unfolding ex_requests_def ex_defs by code_simp
  from match_invariant_preserved [OF h, of _ _ _ _ _ ex_requests "u_id ex_user" "p_id ex_problem"] h e
  show ?thesis by blast
qed

text \<open>
  C2, as the specification states it: past the two answers 400 and the answer 404,
  \<open>setMatch\<close> upserts, for every pair of a user and a problem. The row it writes references
  the user of the token, and the foreign key of the schema refuses it when that user has
  no row: for the second user, who is not in the small store, and the problem of the
  store the handler answers 500, and the store keeps no row of the pair.
\<close>

theorem setMatch_missing_user_counterexample:
  "isUuid (JString (u_id ex_user2)) \<and>
   isUuid (JString (p_id ex_problem)) \<and>
   uuid_in (p_id ex_problem) \<in> set (map p_id (problems ex_db)) \<and>
   schema_ok ex_db \<and>
   setMatch ''m2'' 40 ex_db (u_id ex_user2) (p_id ex_problem) (JString ''SOLVER'') =
     (status_json 500 (StoreErrorBody ForeignKeyViolation), ex_db) \<and>
   filter (\<lambda>m. match_key m = (uuid_in (u_id ex_user2), uuid_in (p_id ex_problem)))
     (problem_matches ex_db) = []"
proof -
  have "isUuid (JString (u_id ex_user2)) \<and> isUuid (JString (p_id ex_problem)) \<and>
      uuid_in (p_id ex_problem) \<in> set (map p_id (problems ex_db))"
    unfolding ex_defs ex_user2_def by code_simp
  moreover have "schema_ok ex_db"
    unfolding schema_ok_def match_inv_def ex_defs by code_simp
  moreover have "setMatch ''m2'' 40 ex_db (u_id ex_user2) (p_id ex_problem) (JString ''SOLVER'') =
      (status_json 500 (StoreErrorBody ForeignKeyViolation), ex_db)"
    unfolding ex_defs ex_user2_def by code_simp
  moreover have "filter (\<lambda>m. match_key m = (uuid_in (u_id ex_user2), uuid_in (p_id ex_problem)))
      (problem_matches ex_db) = []"
    unfolding ex_defs ex_user2_def by code_simp
  ultimately show ?thesis by (intro conjI) simp_all
qed

text \<open>
  C2, amended. \<open>setMatch\<close> answers 400 when the problem id is not a UUID or the role is not
  \<open>SOLVER\<close> or \<open>AFFECTED\<close>, and 404 when no problem has that id, leaving the store as it
  was. Past these, in a store that satisfies its schema, it answers 500 and leaves the
  store as it was when the user has no row; for a user of the store (and an unused id for
  a new row) it upserts on the pair: setting \<open>SOLVER\<close> and then \<open>AFFECTED\<close> answers each time
  with the resulting row, and leaves exactly one row of the pair, with role \<open>AFFECTED\<close>,
  and every other row as it was.
\<close>

theorem setMatch_contract:
  "(\<not> isUuid (JString problemId) \<longrightarrow>
      status (fst (setMatch new_id now d userId problemId role)) = 400 \<and>
      snd (setMatch new_id now d userId problemId role) = d) \<and>
   (role \<noteq> JString ''SOLVER'' \<and> role \<noteq> JString ''AFFECTED'' \<longrightarrow>
      status (fst (setMatch new_id now d userId problemId role)) = 400 \<and>
      snd (setMatch new_id now d userId problemId role) = d) \<and>
   (isUuid (JString problemId) \<and> (role = JString ''SOLVER'' \<or> role = JString ''AFFECTED'') \<and>
    uuid_in problemId \<notin> set (map p_id (problems d)) \<longrightarrow>
      status (fst (setMatch new_id now d userId problemId role)) = 404 \<and>
      snd (setMatch new_id now d userId problemId role) = d) \<and>
   (schema_ok d \<and> isUuid (JString problemId) \<and>
    (role = JString ''SOLVER'' \<or> role = JString ''AFFECTED'') \<and>
    uuid_in problemId \<in> set (map p_id (problems d)) \<and>
    uuid_in userId \<notin> set (map u_id (users d)) \<longrightarrow>
      status (fst (setMatch new_id now d userId problemId role)) = 500 \<and>
      snd (setMatch new_id now d userId problemId role) = d) \<and>
   (schema_ok d \<and> isUuid (JString problemId) \<and>
    uuid_in problemId \<in> set (map p_id (problems d)) \<and>
    uuid_in userId \<in> set (map u_id (users d)) \<and>
    new_id \<notin> set (map m_id (problem_matches d)) \<longrightarrow>
      (\<exists>row1 d1 row2 d2.
         setMatch new_id now d userId problemId (JString ''SOLVER'') = (json (MatchBody row1), d1) \<and>
         filter (\<lambda>m. match_key m = (uuid_in userId, uuid_in problemId)) (problem_matches d1) = [row1] \<and>
         m_role row1 = ''SOLVER'' \<and>
         setMatch new_id' now' d1 userId problemId (JString ''AFFECTED'') = (json (MatchBody row2), d2) \<and>
         filter (\<lambda>m. match_key m = (uuid_in userId, uuid_in problemId)) (problem_matches d2) = [row2] \<and>
         m_role row2 = ''AFFECTED'' \<and>
         filter (\<lambda>m. match_key m \<noteq> (uuid_in userId, uuid_in problemId)) (problem_matches d2) =
           filter (\<lambda>m. match_key m \<noteq> (uuid_in userId, uuid_in problemId)) (problem_matches d)))"
proof (intro conjI impI)
  assume "\<not> isUuid (JString problemId)"
  then show "status (fst (setMatch new_id now d userId problemId role)) = 400"
    and "snd (setMatch new_id now d userId problemId role) = d"
    by (simp_all add: setMatch_def status_json_def)
next
  assume "role \<noteq> JString ''SOLVER'' \<and> role \<noteq> JString ''AFFECTED''"
  then show "status (fst (setMatch new_id now d userId problemId role)) = 400"
    and "snd (setMatch new_id now d userId problemId role) = d"
    by (auto simp: setMatch_def status_json_def split: jsval.splits)
next
  assume a: "isUuid (JString problemId) \<and> (role = JString ''SOLVER'' \<or> role = JString ''AFFECTED'') \<and>
    uuid_in problemId \<notin> set (map p_id (problems d))"
  then have "filter (\<lambda>q. p_id q = uuid_in problemId) (problems d) = []"
    by (simp add: filter_key_absent)
  with a show "status (fst (setMatch new_id now d userId problemId role)) = 404"
    and "snd (setMatch new_id now d userId problemId role) = d"
    by (auto simp: setMatch_def status_json_def maybeSingle_def)
next
  assume a: "schema_ok d \<and> isUuid (JString problemId) \<and>
    (role = JString ''SOLVER'' \<or> role = JString ''AFFECTED'') \<and>
    uuid_in problemId \<in> set (map p_id (problems d)) \<and>
    uuid_in userId \<notin> set (map u_id (users d))"
  then obtain r where role: "role = JString r" and r: "r = ''SOLVER'' \<or> r = ''AFFECTED''"
    by blast
  from a have pk: "distinct (map p_id (problems d))"
    by (simp add: schema_ok_def)
  from a filter_key_member [OF pk, of "uuid_in problemId"] obtain q
    where q: "filter (\<lambda>x. p_id x = uuid_in problemId) (problems d) = [q]" by blast
  from a have fk: "\<forall>m \<in> set (problem_matches d). m_user_id m \<in> set (map u_id (users d))"
    and gone: "uuid_in userId \<notin> set (map u_id (users d))"
    by (simp_all add: schema_ok_def)
  have "\<forall>m \<in> set (problem_matches d). m_user_id m \<noteq> uuid_in userId"
  proof
    fix m assume "m \<in> set (problem_matches d)"
    with fk have "m_user_id m \<in> set (map u_id (users d))" ..
    with gone show "m_user_id m \<noteq> uuid_in userId" by metis
  qed
  then have absent: "find (\<lambda>m. match_key m = (uuid_in userId, uuid_in problemId))
      (problem_matches d) = None"
    by (auto simp: find_None_iff match_key_def)
  from a r absent have "\<exists>e. upsert_match new_id now d userId problemId r = Inl e"
    by (auto simp: upsert_match_def Let_def)
  then obtain e where e: "upsert_match new_id now d userId problemId r = Inl e" ..
  from a r q e show "status (fst (setMatch new_id now d userId problemId role)) = 500"
    and "snd (setMatch new_id now d userId problemId role) = d"
    by (auto simp: role setMatch_def status_json_def maybeSingle_def)
next
  let ?k = "(uuid_in userId, uuid_in problemId)"
  assume a: "schema_ok d \<and> isUuid (JString problemId) \<and>
    uuid_in problemId \<in> set (map p_id (problems d)) \<and>
    uuid_in userId \<in> set (map u_id (users d)) \<and>
    new_id \<notin> set (map m_id (problem_matches d))"
  then have pk: "distinct (map p_id (problems d))" and inv: "match_inv d"
    by (simp_all add: schema_ok_def)
  from inv have keys: "distinct (map match_key (problem_matches d))"
    by (simp add: match_inv_def)
  from a setMatch_result [of problemId "''SOLVER''" d userId new_id now, OF _ _ pk _ keys]
  obtain row1 d1 where s1: "setMatch new_id now d userId problemId (JString ''SOLVER'') = (json (MatchBody row1), d1)"
    and f1: "filter (\<lambda>m. match_key m = ?k) (problem_matches d1) = [row1]"
    and r1: "m_role row1 = ''SOLVER''"
    and o1: "filter (\<lambda>m. match_key m \<noteq> ?k) (problem_matches d1) = filter (\<lambda>m. match_key m \<noteq> ?k) (problem_matches d)"
    and p1: "problems d1 = problems d"
    by auto
  from setMatch_inv [OF inv, of new_id now userId problemId "JString ''SOLVER''"] s1
  have keys1: "distinct (map match_key (problem_matches d1))"
    by (simp add: match_inv_def)
  from f1 have "row1 \<in> set (filter (\<lambda>m. match_key m = ?k) (problem_matches d1))" by simp
  then have present: "?k \<in> set (map match_key (problem_matches d1))" by force
  from a p1 present setMatch_result [of problemId "''AFFECTED''" d1 userId new_id' now', OF _ _ _ _ keys1]
  obtain row2 d2 where s2: "setMatch new_id' now' d1 userId problemId (JString ''AFFECTED'') = (json (MatchBody row2), d2)"
    and f2: "filter (\<lambda>m. match_key m = ?k) (problem_matches d2) = [row2]"
    and r2: "m_role row2 = ''AFFECTED''"
    and o2: "filter (\<lambda>m. match_key m \<noteq> ?k) (problem_matches d2) = filter (\<lambda>m. match_key m \<noteq> ?k) (problem_matches d1)"
    using pk by auto
  from s1 f1 r1 s2 f2 r2 o1 o2
  show "\<exists>row1 d1 row2 d2.
         setMatch new_id now d userId problemId (JString ''SOLVER'') = (json (MatchBody row1), d1) \<and>
         filter (\<lambda>m. match_key m = ?k) (problem_matches d1) = [row1] \<and>
         m_role row1 = ''SOLVER'' \<and>
         setMatch new_id' now' d1 userId problemId (JString ''AFFECTED'') = (json (MatchBody row2), d2) \<and>
         filter (\<lambda>m. match_key m = ?k) (problem_matches d2) = [row2] \<and>
         m_role row2 = ''AFFECTED'' \<and>
         filter (\<lambda>m. match_key m \<noteq> ?k) (problem_matches d2) =
           filter (\<lambda>m. match_key m \<noteq> ?k) (problem_matches d)"
    by (intro exI [of _ row1] exI [of _ d1] exI [of _ row2] exI [of _ d2]) simp
qed

theorem setMatch_contract_witness:
  "status (fst (setMatch ''m2'' 40 ex_db (u_id ex_user) ''not-a-uuid'' (JString ''SOLVER''))) = 400 \<and>
   status (fst (setMatch ''m2'' 40 ex_db (u_id ex_user) (p_id ex_problem) (JString ''solver''))) = 400 \<and>
   status (fst (setMatch ''m2'' 40 ex_db (u_id ex_user) ''bbbbbbbb-bbbb-4bbb-8bbb-bbbbbbbbbbbb''
              (JString ''SOLVER''))) = 404 \<and>
   status (fst (setMatch ''m2'' 40 ex_db (u_id ex_user2) (p_id ex_problem)
              (JString ''AFFECTED''))) = 500 \<and>
   schema_ok (ex_db\<lparr>problem_matches := []\<rparr>) \<and>
   (\<exists>row1 d1 row2 d2.
      setMatch ''m2'' 40 (ex_db\<lparr>problem_matches := []\<rparr>) (u_id ex_user)
          ''AAAAAAAA-AAAA-4AAA-8AAA-AAAAAAAAAAAA'' (JString ''SOLVER'') =
        (json (MatchBody row1), d1) \<and>
      m_role row1 = ''SOLVER'' \<and>
      setMatch ''m3'' 50 d1 (u_id ex_user) ''AAAAAAAA-AAAA-4AAA-8AAA-AAAAAAAAAAAA''
          (JString ''AFFECTED'') =
        (json (MatchBody row2), d2) \<and>
      filter (\<lambda>m. match_key m = (u_id ex_user, p_id ex_problem)) (problem_matches d2) = [row2] \<and>
      m_role row2 = ''AFFECTED'')"
proof -
  let ?P = "''AAAAAAAA-AAAA-4AAA-8AAA-AAAAAAAAAAAA''"
  let ?d = "ex_db\<lparr>problem_matches := []\<rparr>"
  have a1: "\<not> isUuid (JString ''not-a-uuid'')" by code_simp
  have a2: "JString ''solver'' \<noteq> JString ''SOLVER'' \<and> JString ''solver'' \<noteq> JString ''AFFECTED''"
    by simp
  have a3: "isUuid (JString ''bbbbbbbb-bbbb-4bbb-8bbb-bbbbbbbbbbbb'') \<and>
      (JString ''SOLVER'' = JString ''SOLVER'' \<or> JString ''SOLVER'' = JString ''AFFECTED'') \<and>
      uuid_in ''bbbbbbbb-bbbb-4bbb-8bbb-bbbbbbbbbbbb'' \<notin> set (map p_id (problems ex_db))"
    unfolding ex_defs by code_simp
  have ok: "schema_ok ?d"
    unfolding schema_ok_def match_inv_def ex_defs by code_simp
  have a5: "schema_ok ex_db \<and> isUuid (JString (p_id ex_problem)) \<and>
      (JString ''AFFECTED'' = JString ''SOLVER'' \<or> JString ''AFFECTED'' = JString ''AFFECTED'') \<and>
      uuid_in (p_id ex_problem) \<in> set (map p_id (problems ex_db)) \<and>
      uuid_in (u_id ex_user2) \<notin> set (map u_id (users ex_db))"
    unfolding schema_ok_def match_inv_def ex_defs ex_user2_def by code_simp
  have a4: "isUuid (JString ?P) \<and>
      uuid_in ?P \<in> set (map p_id (problems ?d)) \<and>
      uuid_in (u_id ex_user) \<in> set (map u_id (users ?d)) \<and>
      ''m2'' \<notin> set (map m_id (problem_matches ?d))"
    unfolding ex_defs by code_simp
  have k: "uuid_in (u_id ex_user) = u_id ex_user" "uuid_in ?P = p_id ex_problem"
    unfolding ex_defs by code_simp+
  note c1 = setMatch_contract [where problemId = "''not-a-uuid''" and new_id = "''m2''"
      and now = 40 and d = ex_db and userId = "u_id ex_user" and role = "JString ''SOLVER''"]
  note c2 = setMatch_contract [where problemId = "p_id ex_problem" and new_id = "''m2''"
      and now = 40 and d = ex_db and userId = "u_id ex_user" and role = "JString ''solver''"]
  note c3 = setMatch_contract [where problemId = "''bbbbbbbb-bbbb-4bbb-8bbb-bbbbbbbbbbbb''"
      and new_id = "''m2''" and now = 40 and d = ex_db and userId = "u_id ex_user"
      and role = "JString ''SOLVER''"]
  note c4 = setMatch_contract [where problemId = ?P and new_id = "''m2''" and now = 40
      and d = ?d and userId = "u_id ex_user" and new_id' = "''m3''" and now' = 50]
  note c5 = setMatch_contract [where problemId = "p_id ex_problem" and new_id = "''m2''"
      and now = 40 and d = ex_db and userId = "u_id ex_user2" and role = "JString ''AFFECTED''"]
  from c1 a1 have "status (fst (setMatch ''m2'' 40 ex_db (u_id ex_user) ''not-a-uuid''
      (JString ''SOLVER''))) = 400"
    by blast
  moreover from c2 a2 have "status (fst (setMatch ''m2'' 40 ex_db (u_id ex_user) (p_id ex_problem)
      (JString ''solver''))) = 400"
    by blast
  moreover from c3 a3 have "status (fst (setMatch ''m2'' 40 ex_db (u_id ex_user)
      ''bbbbbbbb-bbbb-4bbb-8bbb-bbbbbbbbbbbb'' (JString ''SOLVER''))) = 404"
    by blast
  moreover from c5 a5 have "status (fst (setMatch ''m2'' 40 ex_db (u_id ex_user2) (p_id ex_problem)
      (JString ''AFFECTED''))) = 500"
    by blast
  moreover from c4 ok a4 have "\<exists>row1 d1 row2 d2.
      setMatch ''m2'' 40 ?d (u_id ex_user) ?P (JString ''SOLVER'') = (json (MatchBody row1), d1) \<and>
      m_role row1 = ''SOLVER'' \<and>
      setMatch ''m3'' 50 d1 (u_id ex_user) ?P (JString ''AFFECTED'') = (json (MatchBody row2), d2) \<and>
      filter (\<lambda>m. match_key m = (u_id ex_user, p_id ex_problem)) (problem_matches d2) = [row2] \<and>
      m_role row2 = ''AFFECTED''"
    unfolding k by blast
  ultimately show ?thesis using ok by blast
qed

subsection \<open>Login and the bearer token\<close>

lemma bearer_word: "toLowerCase ''Bearer'' = ''bearer''"
  by code_simp

lemma space_is_white: "isWhiteSpace CHR '' ''"
  by code_simp

lemma line_terminator_white: "isLineTerminator c \<Longrightarrow> isWhiteSpace c"
  by (auto simp: isLineTerminator_def isWhiteSpace_def)

lemma bearer_match_token:
  assumes "token_text t"
  shows "bearer_match (''Bearer '' @ t) = Some t"
proof -
  from assms obtain c cs where t: "t = c # cs" and c: "\<not> isWhiteSpace c"
    and cs: "list_all (\<lambda>c. \<not> isWhiteSpace c) cs"
    by (cases t) (auto simp: token_text_def)
  have nl: "\<not> list_ex isLineTerminator t"
    using assms by (auto simp: token_text_def list_ex_iff list_all_iff dest: line_terminator_white)
  have w: "takeWhile isWhiteSpace (CHR '' '' # t) = [CHR '' '']"
    "dropWhile isWhiteSpace (CHR '' '' # t) = t"
    using c by (simp_all add: t space_is_white)
  have "toLowerCase (take 6 (''Bearer '' @ t)) = ''bearer''"
    using bearer_word by simp
  moreover have "drop 6 (''Bearer '' @ t) = CHR '' '' # t" by simp
  ultimately show ?thesis
    using nl w unfolding bearer_match_def Let_def by (simp add: t)
qed

lemma maybeSingle_unique:
  "distinct (map f xs) \<Longrightarrow> x \<in> set xs \<Longrightarrow> f x = k \<Longrightarrow>
   maybeSingle (filter (\<lambda>y. f y = k) xs) = Inr (Some x)"
proof -
  assume d: "distinct (map f xs)" and x: "x \<in> set xs" and k: "f x = k"
  then have "k \<in> set (map f xs)" by force
  with d obtain m where m: "filter (\<lambda>y. f y = k) xs = [m]"
    using filter_key_member by metis
  from x k have "x \<in> set (filter (\<lambda>y. f y = k) xs)" by simp
  with m have "m = x" by simp
  with m show ?thesis by (simp add: maybeSingle_def)
qed

lemma maybeSingle_absent:
  "k \<notin> set (map f xs) \<Longrightarrow> maybeSingle (filter (\<lambda>y. f y = k) xs) = Inr None"
  by (simp add: filter_key_absent maybeSingle_def)

text \<open>
  C4. \<open>POST /login\<close> answers 400 for every \<open>userId\<close> that is not a string matching the
  UUID pattern, and 404 for every \<open>userId\<close> that matches it and is the id of no user; for
  the id of a user it answers with the token and the user's row.
\<close>

theorem login_contract:
  "(\<not> isUuid userId \<longrightarrow>
      login E clock d userId = status_json 400 (ErrorBody ''userId must be a uuid'')) \<and>
   (isUuid userId \<and> uuid_in (the_string userId) \<notin> set (map u_id (users d)) \<longrightarrow>
      login E clock d userId = status_json 404 (ErrorBody ''User not found'')) \<and>
   (isUuid userId \<and> distinct (map u_id (users d)) \<and> user \<in> set (users d) \<and>
    u_id user = uuid_in (the_string userId) \<longrightarrow>
      login E clock d userId = json (LoginBody (jwt_sign E clock userId) user))"
proof (intro conjI impI)
  assume "\<not> isUuid userId"
  then show "login E clock d userId = status_json 400 (ErrorBody ''userId must be a uuid'')"
    by (simp add: login_def)
next
  assume "isUuid userId \<and> uuid_in (the_string userId) \<notin> set (map u_id (users d))"
  then show "login E clock d userId = status_json 404 (ErrorBody ''User not found'')"
    by (simp add: login_def maybeSingle_absent)
next
  assume a: "isUuid userId \<and> distinct (map u_id (users d)) \<and> user \<in> set (users d) \<and>
    u_id user = uuid_in (the_string userId)"
  then have "maybeSingle (filter (\<lambda>u. u_id u = uuid_in (the_string userId)) (users d)) = Inr (Some user)"
    by (intro maybeSingle_unique) simp_all
  with a show "login E clock d userId = json (LoginBody (jwt_sign E clock userId) user)"
    by (simp add: login_def)
qed

theorem login_contract_witness:
  "login ex_env 1000 ex_db (JNumber (Fin 7)) = status_json 400 (ErrorBody ''userId must be a uuid'') \<and>
   login ex_env 1000 ex_db (JString ''11111111-1111-6111-8111-111111111111'') =
     status_json 400 (ErrorBody ''userId must be a uuid'') \<and>
   login ex_env 1000 ex_db (JString ''22222222-2222-4222-8222-222222222222'') =
     status_json 404 (ErrorBody ''User not found'') \<and>
   login ex_env 1000 ex_db (JString (u_id ex_user)) =
     json (LoginBody (jwt_sign ex_env 1000 (JString (u_id ex_user))) ex_user)"
proof -
  have a1: "\<not> isUuid (JNumber (Fin 7))" by (simp add: isUuid_def)
  have a2: "\<not> isUuid (JString ''11111111-1111-6111-8111-111111111111'')" by code_simp
  have a3: "isUuid (JString ''22222222-2222-4222-8222-222222222222'') \<and>
      uuid_in (the_string (JString ''22222222-2222-4222-8222-222222222222'')) \<notin>
        set (map u_id (users ex_db))"
    unfolding ex_defs by code_simp
  have a4: "isUuid (JString (u_id ex_user)) \<and> distinct (map u_id (users ex_db)) \<and>
      ex_user \<in> set (users ex_db) \<and> u_id ex_user = uuid_in (the_string (JString (u_id ex_user)))"
    unfolding ex_defs by code_simp
  note c1 = login_contract [where userId = "JNumber (Fin 7)" and E = ex_env and clock = 1000
      and d = ex_db]
  note c2 = login_contract [where userId = "JString ''11111111-1111-6111-8111-111111111111''"
      and E = ex_env and clock = 1000 and d = ex_db]
  note c3 = login_contract [where userId = "JString ''22222222-2222-4222-8222-222222222222''"
      and E = ex_env and clock = 1000 and d = ex_db]
  note c4 = login_contract [where userId = "JString (u_id ex_user)" and E = ex_env
      and clock = 1000 and d = ex_db and user = ex_user]
  from c1 a1 c2 a2 c3 a3 c4 a4 show ?thesis by blast
qed

text \<open>
  C3. \<open>POST /login\<close> signs the payload with subject the id as given, type \<open>access\<close> and
  expiry thirty days after issue. For the id of a user, the token it issues is accepted by \<open>requireAuth\<close> before its
  expiry, which yields the same id, and \<open>GET /me\<close> answers with the user; this holds for
  signature primitives under which the issued token is token text, decodes to the payload
  that was signed and verifies under the secret. A token whose signature does not verify,
  and a token at or after its expiry, are refused with 401.
\<close>

theorem token_round_trip:
  "jwt_sign E t0 userId =
     jws_sign E
       \<lparr>jwt_sub = userId, jwt_typ = JString ''access'', jwt_iat = Some t0,
        jwt_exp = Some (t0 + 30 * 24 * 60 * 60), jwt_nbf = None\<rparr>
       (JWT_SECRET E) \<and>
   (isUuid (JString s) \<and> distinct (map u_id (users d)) \<and> user \<in> set (users d) \<and>
    u_id user = uuid_in s \<and>
    token_text (jwt_sign E t0 (JString s)) \<and>
    jws_decode E (jwt_sign E t0 (JString s)) =
      Some \<lparr>jwt_sub = JString s, jwt_typ = JString ''access'', jwt_iat = Some t0,
            jwt_exp = Some (t0 + 2592000), jwt_nbf = None\<rparr> \<and>
    jws_verify E (jwt_sign E t0 (JString s)) (JWT_SECRET E) \<and>
    t1 < t0 + 2592000 \<longrightarrow>
      login E t0 d (JString s) = json (LoginBody (jwt_sign E t0 (JString s)) user) \<and>
      requireAuth E t1 (Some (''Bearer '' @ jwt_sign E t0 (JString s))) = Inr s \<and>
      me E t1 d (Some (''Bearer '' @ jwt_sign E t0 (JString s))) = json (UserBody user)) \<and>
   (bearer_match h = Some t \<and> \<not> jws_verify E t (JWT_SECRET E) \<longrightarrow>
      status (me E clock d (Some h)) = 401) \<and>
   (bearer_match h = Some t \<and> jws_decode E t = Some p \<and> jwt_exp p = Some e \<and> e \<le> clock \<longrightarrow>
      status (me E clock d (Some h)) = 401)"
proof (intro conjI impI)
  show "jwt_sign E t0 userId =
     jws_sign E
       \<lparr>jwt_sub = userId, jwt_typ = JString ''access'', jwt_iat = Some t0,
        jwt_exp = Some (t0 + 30 * 24 * 60 * 60), jwt_nbf = None\<rparr>
       (JWT_SECRET E)"
    by (simp add: jwt_sign_def)
next
  let ?tok = "jwt_sign E t0 (JString s)"
  let ?p = "\<lparr>jwt_sub = JString s, jwt_typ = JString ''access'', jwt_iat = Some t0,
            jwt_exp = Some (t0 + 2592000), jwt_nbf = None\<rparr>"
  assume a: "isUuid (JString s) \<and> distinct (map u_id (users d)) \<and> user \<in> set (users d) \<and>
    u_id user = uuid_in s \<and> token_text ?tok \<and> jws_decode E ?tok = Some ?p \<and>
    jws_verify E ?tok (JWT_SECRET E) \<and> t1 < t0 + 2592000"
  then have single: "maybeSingle (filter (\<lambda>u. u_id u = uuid_in s) (users d)) = Inr (Some user)"
    by (intro maybeSingle_unique) simp_all
  from a have s: "s \<noteq> []" by (auto simp: isUuid_def uuid_regex_test_def uuid_pattern_def)
  from a have bm: "bearer_match (''Bearer '' @ ?tok) = Some ?tok"
    by (intro bearer_match_token) simp
  from a have v: "jwt_verify E t1 ?tok = Some ?p"
    by (simp add: jwt_verify_def)
  from a single show "login E t0 d (JString s) = json (LoginBody ?tok user)"
    by (simp add: login_def the_string_def)
  from a s bm v show auth: "requireAuth E t1 (Some (''Bearer '' @ ?tok)) = Inr s"
    unfolding requireAuth_def Let_def by (simp add: truthy_def the_string_def)
  from auth single show "me E t1 d (Some (''Bearer '' @ ?tok)) = json (UserBody user)"
    by (simp add: me_def)
next
  assume "bearer_match h = Some t \<and> \<not> jws_verify E t (JWT_SECRET E)"
  then have "requireAuth E clock (Some h) = Inl (status_json 401 (ErrorBody ''Invalid or expired token''))"
    unfolding requireAuth_def Let_def by (simp add: jwt_verify_def split: option.splits)
  then show "status (me E clock d (Some h)) = 401"
    by (simp add: me_def status_json_def)
next
  assume "bearer_match h = Some t \<and> jws_decode E t = Some p \<and> jwt_exp p = Some e \<and> e \<le> clock"
  then have "requireAuth E clock (Some h) = Inl (status_json 401 (ErrorBody ''Invalid or expired token''))"
    unfolding requireAuth_def Let_def by (simp add: jwt_verify_def)
  then show "status (me E clock d (Some h)) = 401"
    by (simp add: me_def status_json_def)
qed

theorem token_round_trip_witness:
  "jwt_sign ex_env 1000 (JString (u_id ex_user)) =
     ''header.11111111-1111-4111-8111-111111111111.s3cret'' \<and>
   login ex_env 1000 ex_db (JString (u_id ex_user)) =
     json (LoginBody ''header.11111111-1111-4111-8111-111111111111.s3cret'' ex_user) \<and>
   requireAuth ex_env 2592999
       (Some ''Bearer header.11111111-1111-4111-8111-111111111111.s3cret'') =
     Inr (u_id ex_user) \<and>
   me ex_env 2592999 ex_db (Some ''Bearer header.11111111-1111-4111-8111-111111111111.s3cret'') =
     json (UserBody ex_user) \<and>
   status (me ex_env 2592999 ex_db
     (Some ''Bearer header.11111111-1111-4111-8111-111111111111.s3creT'')) = 401 \<and>
   status (me ex_env 2593000 ex_db
     (Some ''Bearer header.11111111-1111-4111-8111-111111111111.s3cret'')) = 401"
proof -
  let ?s = "u_id ex_user"
  let ?tok = "''header.11111111-1111-4111-8111-111111111111.s3cret''"
  let ?bad = "''header.11111111-1111-4111-8111-111111111111.s3creT''"
  let ?p = "\<lparr>jwt_sub = JString ?s, jwt_typ = JString ''access'', jwt_iat = Some 1000,
            jwt_exp = Some (1000 + 2592000), jwt_nbf = None\<rparr>"
  have tok: "jwt_sign ex_env 1000 (JString ?s) = ?tok"
    by (simp add: jwt_sign_def ex_env_def ex_user_def the_string_def)
  have a1: "isUuid (JString ?s) \<and> distinct (map u_id (users ex_db)) \<and> ex_user \<in> set (users ex_db) \<and>
      u_id ex_user = uuid_in ?s"
    unfolding ex_defs by code_simp
  have a2: "token_text ?tok"
    unfolding token_text_def by code_simp
  have a3: "jws_decode ex_env ?tok = Some ?p"
    by (simp add: ex_env_def ex_user_def)
  have a4: "jws_verify ex_env ?tok (JWT_SECRET ex_env)"
    by (simp add: ex_env_def)
  have a5: "(2592999::nat) < 1000 + 2592000" by simp
  have b1: "bearer_match (''Bearer '' @ ?bad) = Some ?bad"
    by code_simp
  have b1': "\<not> jws_verify ex_env ?bad (JWT_SECRET ex_env)"
    by (simp add: ex_env_def)
  have b2: "bearer_match (''Bearer '' @ ?tok) = Some ?tok"
    by code_simp
  have b2': "jwt_exp ?p = Some 2593000 \<and> (2593000::nat) \<le> 2593000"
    by simp
  note c1 = token_round_trip [where s = ?s and d = ex_db and user = ex_user and E = ex_env
      and ?t0.0 = 1000 and ?t1.0 = 2592999 and h = "''Bearer '' @ ?bad" and t = ?bad
      and clock = 2592999]
  note c2 = token_round_trip [where E = ex_env and d = ex_db and h = "''Bearer '' @ ?tok"
      and t = ?tok and p = ?p and e = 2593000 and clock = 2593000]
  from c1 have r1: "login ex_env 1000 ex_db (JString ?s) = json (LoginBody ?tok ex_user) \<and>
      requireAuth ex_env 2592999 (Some (''Bearer '' @ ?tok)) = Inr ?s \<and>
      me ex_env 2592999 ex_db (Some (''Bearer '' @ ?tok)) = json (UserBody ex_user)"
    unfolding tok using a1 a2 a3 a4 a5 by blast
  from c1 b1 b1' have r2: "status (me ex_env 2592999 ex_db (Some (''Bearer '' @ ?bad))) = 401"
    by blast
  from c2 b2 b2' a3 have r3: "status (me ex_env 2593000 ex_db (Some (''Bearer '' @ ?tok))) = 401"
    by blast
  have cat: "''Bearer '' @ ?tok = ''Bearer header.11111111-1111-4111-8111-111111111111.s3cret''"
    "''Bearer '' @ ?bad = ''Bearer header.11111111-1111-4111-8111-111111111111.s3creT''"
    by simp_all
  from r1 r2 r3 tok show ?thesis
    unfolding cat by blast
qed

subsection \<open>The limit of my matches\<close>

lemma code_eq_iff: "c = d \<longleftrightarrow> code c = code d"
  by (auto simp: code_def)

lemma Math_min_NaN: "Math_min NaN b = NaN"
  by (simp add: Math_min_def)

lemma Math_min_500: "Math_min a (Fin 500) =
  (case a of NaN \<Rightarrow> NaN | NegInf \<Rightarrow> NegInf | PosInf \<Rightarrow> Fin 500 | NegZero \<Rightarrow> NegZero
   | Fin r \<Rightarrow> Fin (min r 500))"
  by (cases a) (simp_all add: Math_min_def)

lemma digits_letter:
  assumes "97 \<le> code c" "code c \<le> 122"
  shows "digits 10 (c # cs) = None"
  using assms by (auto simp: digits_def digit_of_def split: option.splits)

lemma mantissa_letter:
  assumes "97 \<le> code c" "code c \<le> 122"
  shows "mantissa (c # cs) = None"
proof -
  have "c \<noteq> CHR ''.''" using assms by (auto simp: code_eq_iff code_def)
  then show ?thesis
    using digits_letter [OF assms]
    by (auto simp: mantissa_def Let_def split: option.splits)
qed

lemma unsigned_decimal_letter:
  assumes "97 \<le> code c" "code c \<le> 122"
  shows "unsigned_decimal (c # cs) = NaN"
proof -
  have inf: "c # cs \<noteq> ''Infinity''" using assms by (auto simp: code_eq_iff code_def)
  show ?thesis
  proof (cases "is_exp_mark c")
    case True
    then have "mantissa (takeWhile (\<lambda>c. \<not> is_exp_mark c) (c # cs)) = None"
      by (simp add: mantissa_def digits_def)
    with inf show ?thesis by (simp add: unsigned_decimal_def Let_def)
  next
    case False
    then have "mantissa (takeWhile (\<lambda>c. \<not> is_exp_mark c) (c # cs)) = None"
      by (simp add: mantissa_letter [OF assms])
    with inf show ?thesis by (simp add: unsigned_decimal_def Let_def)
  qed
qed

lemma StringToNumber_letter:
  assumes t: "trim s = c # cs" and c: "97 \<le> code c" "code c \<le> 122"
  shows "StringToNumber s = NaN"
proof -
  have ne: "c \<noteq> CHR ''0''" "c \<noteq> CHR ''-''" "c \<noteq> CHR ''+''"
    using c by (auto simp: code_eq_iff code_def)
  have low: "toLowerChar c = c" using c by (simp add: toLowerChar_def)
  have "toLowerCase (take 2 (c # cs)) \<noteq> ''0x''" "toLowerCase (take 2 (c # cs)) \<noteq> ''0o''"
    "toLowerCase (take 2 (c # cs)) \<noteq> ''0b''"
    using ne low by (simp_all add: toLowerCase_def take_Suc_conv_app_nth numeral_2_eq_2)
  then show ?thesis
    using ne unsigned_decimal_letter [OF c] unfolding StringToNumber_def Let_def t by simp
qed

lemma limit_count_nat: "1 \<le> k \<Longrightarrow> limit_count (Fin (of_nat k)) = Some k"
  by (simp add: limit_count_def)

lemma limit_count_not_counted:
  "limit_count NaN = None" "limit_count NegInf = None" "r < 0 \<Longrightarrow> limit_count (Fin r) = None"
  by (simp_all add: limit_count_def)

text \<open>
  C9. The number that \<open>GET /me/matches\<close> hands to the store as the limit is
  \<open>Math.min(Number(limit), 500)\<close> whenever the parameter is present, and the handler
  answers from what the store answers to the query with that number, whatever the store
  makes of a number that is not a positive integer. For every value that
  \<open>Number\<close> does not read as a numeric literal (so for every text that begins, after
  trimming, with a small letter, such as \<open>abc\<close>) the number is \<open>NaN\<close>, not 200, and the query
  goes to the store with \<open>NaN\<close> as its limit: the answer is 500 with the store's error when
  the store refuses that limit, and otherwise the items of the rows the store selects under
  it. 200 is the default of an absent parameter only (a present one gives 200 just when
  it denotes 200). There is no lower bound: a negative number, and minus infinity, go to
  the store unchanged.
\<close>

theorem matches_limit_not_numeric:
  "matches_limit (Some v) = Math_min (Number v) (Fin 500) \<and>
   (Number v = NaN \<longrightarrow>
      matches_limit (Some v) = NaN \<and>
      select_matches_of_user L d userId NaN =
        (case L NaN of Inl e \<Rightarrow> Inl e | Inr c \<Rightarrow> Inr (matches_of_user d userId c)) \<and>
      listMyMatches L d userId (Some v) =
        (case select_matches_of_user L d userId NaN of
           Inl e \<Rightarrow> status_json 500 (StoreErrorBody e)
         | Inr rows \<Rightarrow>
             json (MyMatchesBody (map my_match_item (filter (\<lambda>r. snd r \<noteq> None) rows))))) \<and>
   (trim s = c # cs \<and> 97 \<le> code c \<and> code c \<le> 122 \<longrightarrow>
      Number (QStr s) = NaN \<and> matches_limit (Some (QStr s)) = NaN) \<and>
   matches_limit None = Fin 200 \<and>
   select_matches_of_user L d userId (Fin 200) = Inr (matches_of_user d userId (Some 200)) \<and>
   listMyMatches L d userId None =
     json (MyMatchesBody
       (map my_match_item
          (filter (\<lambda>r. snd r \<noteq> None) (matches_of_user d userId (Some 200))))) \<and>
   (matches_limit (Some v) = Fin 200 \<longleftrightarrow> Number v = Fin 200) \<and>
   (Number v = Fin r \<and> r < 0 \<longrightarrow>
      matches_limit (Some v) = Fin r \<and>
      select_matches_of_user L d userId (Fin r) =
        (case L (Fin r) of Inl e \<Rightarrow> Inl e | Inr c \<Rightarrow> Inr (matches_of_user d userId c)) \<and>
      listMyMatches L d userId (Some v) =
        (case select_matches_of_user L d userId (Fin r) of
           Inl e \<Rightarrow> status_json 500 (StoreErrorBody e)
         | Inr rows \<Rightarrow>
             json (MyMatchesBody (map my_match_item (filter (\<lambda>r. snd r \<noteq> None) rows))))) \<and>
   (Number v = NegInf \<longrightarrow>
      matches_limit (Some v) = NegInf \<and>
      select_matches_of_user L d userId NegInf =
        (case L NegInf of Inl e \<Rightarrow> Inl e | Inr c \<Rightarrow> Inr (matches_of_user d userId c)) \<and>
      listMyMatches L d userId (Some v) =
        (case select_matches_of_user L d userId NegInf of
           Inl e \<Rightarrow> status_json 500 (StoreErrorBody e)
         | Inr rows \<Rightarrow>
             json (MyMatchesBody (map my_match_item (filter (\<lambda>r. snd r \<noteq> None) rows)))))"
proof -
  have query: "select_matches_of_user L d userId n =
      (case L n of Inl e \<Rightarrow> Inl e | Inr c \<Rightarrow> Inr (matches_of_user d userId c))"
    if "limit_count n = None" for n
    unfolding select_matches_of_user_def store_limit_def that by (simp only: option.case)
  have answer: "listMyMatches L d userId (Some v) =
        (case select_matches_of_user L d userId n of
           Inl e \<Rightarrow> status_json 500 (StoreErrorBody e)
         | Inr rows \<Rightarrow>
             json (MyMatchesBody (map my_match_item (filter (\<lambda>r. snd r \<noteq> None) rows))))"
    if "matches_limit (Some v) = n" for n
    unfolding listMyMatches_def that by (rule refl)
  have nan: "matches_limit (Some v) = NaN" if "Number v = NaN"
    using that by (simp add: matches_limit_def Math_min_NaN)
  have neg: "matches_limit (Some v) = Fin r" if "Number v = Fin r \<and> r < 0"
    using that by (simp add: matches_limit_def Math_min_500)
  have ninf: "matches_limit (Some v) = NegInf" if "Number v = NegInf"
    using that by (simp add: matches_limit_def Math_min_500)
  have letter: "Number (QStr s) = NaN" if "trim s = c # cs \<and> 97 \<le> code c \<and> code c \<le> 122"
    using that by (auto simp: Number_def intro: StringToNumber_letter)
  have default: "matches_limit None = Fin 200"
    by (simp add: matches_limit_def Math_min_def)
  have counted: "limit_count (Fin 200) = Some 200"
    using limit_count_nat [of 200] by simp
  have query200: "select_matches_of_user L d userId (Fin 200) =
      Inr (matches_of_user d userId (Some 200))"
    unfolding select_matches_of_user_def store_limit_def counted
    by (simp only: option.case sum.case)
  have absent: "listMyMatches L d userId None =
     json (MyMatchesBody
       (map my_match_item
          (filter (\<lambda>r. snd r \<noteq> None) (matches_of_user d userId (Some 200)))))"
    unfolding listMyMatches_def default query200 by (simp only: sum.case)
  have only: "matches_limit (Some v) = Fin 200 \<longleftrightarrow> Number v = Fin 200"
    by (cases "Number v") (auto simp: matches_limit_def Math_min_500 min_def)
  show ?thesis
  proof (intro conjI impI)
    assume a: "Number v = NaN"
    show "matches_limit (Some v) = NaN" by (rule nan [OF a])
    show "select_matches_of_user L d userId NaN =
        (case L NaN of Inl e \<Rightarrow> Inl e | Inr c \<Rightarrow> Inr (matches_of_user d userId c))"
      by (rule query) (rule limit_count_not_counted)
    show "listMyMatches L d userId (Some v) =
        (case select_matches_of_user L d userId NaN of
           Inl e \<Rightarrow> status_json 500 (StoreErrorBody e)
         | Inr rows \<Rightarrow>
             json (MyMatchesBody (map my_match_item (filter (\<lambda>r. snd r \<noteq> None) rows))))"
      by (rule answer) (rule nan [OF a])
  next
    assume a: "trim s = c # cs \<and> 97 \<le> code c \<and> code c \<le> 122"
    show "Number (QStr s) = NaN" by (rule letter [OF a])
    then show "matches_limit (Some (QStr s)) = NaN"
      by (simp add: matches_limit_def Math_min_NaN)
  next
    show "matches_limit (Some v) = Math_min (Number v) (Fin 500)"
      by (simp add: matches_limit_def)
    show "matches_limit None = Fin 200" by (rule default)
    show "select_matches_of_user L d userId (Fin 200) = Inr (matches_of_user d userId (Some 200))"
      by (rule query200)
    show "listMyMatches L d userId None =
     json (MyMatchesBody
       (map my_match_item
          (filter (\<lambda>r. snd r \<noteq> None) (matches_of_user d userId (Some 200)))))"
      by (rule absent)
    show "matches_limit (Some v) = Fin 200 \<longleftrightarrow> Number v = Fin 200" by (rule only)
  next
    assume a: "Number v = Fin r \<and> r < 0"
    show "matches_limit (Some v) = Fin r" by (rule neg [OF a])
    from a show "select_matches_of_user L d userId (Fin r) =
        (case L (Fin r) of Inl e \<Rightarrow> Inl e | Inr c \<Rightarrow> Inr (matches_of_user d userId c))"
      by (intro query limit_count_not_counted) simp
    show "listMyMatches L d userId (Some v) =
        (case select_matches_of_user L d userId (Fin r) of
           Inl e \<Rightarrow> status_json 500 (StoreErrorBody e)
         | Inr rows \<Rightarrow>
             json (MyMatchesBody (map my_match_item (filter (\<lambda>r. snd r \<noteq> None) rows))))"
      by (rule answer) (rule neg [OF a])
  next
    assume a: "Number v = NegInf"
    show "matches_limit (Some v) = NegInf" by (rule ninf [OF a])
    show "select_matches_of_user L d userId NegInf =
        (case L NegInf of Inl e \<Rightarrow> Inl e | Inr c \<Rightarrow> Inr (matches_of_user d userId c))"
      by (rule query) (rule limit_count_not_counted)
    show "listMyMatches L d userId (Some v) =
        (case select_matches_of_user L d userId NegInf of
           Inl e \<Rightarrow> status_json 500 (StoreErrorBody e)
         | Inr rows \<Rightarrow>
             json (MyMatchesBody (map my_match_item (filter (\<lambda>r. snd r \<noteq> None) rows))))"
      by (rule answer) (rule ninf [OF a])
  qed
qed

theorem matches_limit_not_numeric_witness:
  "Number (QStr ''12px'') = NaN \<and> matches_limit (Some (QStr ''12px'')) = NaN \<and>
   trim ''abc'' = ''abc'' \<and> matches_limit (Some (QStr ''abc'')) = NaN \<and>
   listMyMatches (\<lambda>n. Inl RequestRefused) ex_seven (u_id ex_user) (Some (QStr ''abc'')) =
     status_json 500 (StoreErrorBody RequestRefused) \<and>
   listMyMatches (\<lambda>n. Inl RequestRefused) ex_seven (u_id ex_user) None =
     json (MyMatchesBody
       (map my_match_item (matches_of_user ex_seven (u_id ex_user) (Some 200)))) \<and>
   length (matches_of_user ex_seven (u_id ex_user) (Some 200)) = 7 \<and>
   Number (QStr '''') = Fin 0 \<and> matches_limit (Some (QStr '''')) \<noteq> Fin 200 \<and>
   Number (QStr ''-5'') = Fin (- 5) \<and> matches_limit (Some (QStr ''-5'')) = Fin (- 5) \<and>
   listMyMatches (\<lambda>n. Inr (Some 0)) ex_seven (u_id ex_user) (Some (QStr ''-5'')) =
     json (MyMatchesBody []) \<and>
   Number (QStr ''-1e309'') = NegInf \<and> matches_limit (Some (QStr ''-1e309'')) = NegInf \<and>
   Number (QStr ''-Infinity'') = NegInf \<and> matches_limit (Some (QStr ''-Infinity'')) = NegInf"
proof -
  let ?u = "u_id ex_user"
  let ?refuse = "\<lambda>n::jsnum. Inl RequestRefused :: pg_error + nat option"
  let ?none = "\<lambda>n::jsnum. Inr (Some 0) :: pg_error + nat option"
  have a1: "Number (QStr ''12px'') = NaN" by code_simp
  have a2: "trim ''abc'' = CHR ''a'' # ''bc'' \<and> 97 \<le> code CHR ''a'' \<and> code CHR ''a'' \<le> 122"
    by code_simp
  have a3: "Number (QStr '''') = Fin 0" by code_simp
  have a4: "Number (QStr ''-5'') = Fin (- 5) \<and> (- 5 :: rat) < 0" by code_simp
  have a5: "Number (QStr ''-Infinity'') = NegInf" by code_simp
  have a6: "Number (QStr ''-1e309'') = NegInf" by code_simp
  have all: "filter (\<lambda>r. snd r \<noteq> None) (matches_of_user ex_seven ?u (Some 200)) =
      matches_of_user ex_seven ?u (Some 200)"
    unfolding ex_seven_def ex_pid_def ex_defs by code_simp
  have seven: "length (matches_of_user ex_seven ?u (Some 200)) = 7"
    unfolding ex_seven_def ex_pid_def ex_defs by code_simp
  have zero: "matches_of_user ex_seven ?u (Some 0) = []"
    by (simp add: matches_of_user_def limit_rows_def)
  note c1 = matches_limit_not_numeric [where v = "QStr ''12px''" and s = "''abc''"
      and c = "CHR ''a''" and cs = "''bc''"]
  note c2 = matches_limit_not_numeric [where v = "QStr ''''"]
  note c3 = matches_limit_not_numeric [where v = "QStr ''-5''" and r = "- 5" and L = ?none
      and d = ex_seven and userId = ?u]
  note c4 = matches_limit_not_numeric [where v = "QStr ''-Infinity''"]
  note c5 = matches_limit_not_numeric [where v = "QStr ''-1e309''"]
  note c6 = matches_limit_not_numeric [where v = "QStr ''abc''" and s = "''abc''"
      and c = "CHR ''a''" and cs = "''bc''" and L = ?refuse and d = ex_seven and userId = ?u]
  from c1 a1 a2 have r1: "matches_limit (Some (QStr ''12px'')) = NaN"
    and r2: "matches_limit (Some (QStr ''abc'')) = NaN"
    by blast+
  from c6 a2 have abc: "Number (QStr ''abc'') = NaN" by blast
  with c6 have r3: "listMyMatches ?refuse ex_seven ?u (Some (QStr ''abc'')) =
      status_json 500 (StoreErrorBody RequestRefused)"
    by simp
  from c6 have r4: "listMyMatches ?refuse ex_seven ?u None =
      json (MyMatchesBody (map my_match_item (matches_of_user ex_seven ?u (Some 200))))"
    unfolding all by blast
  from c2 have "matches_limit (Some (QStr '''')) = Fin 200 \<longleftrightarrow> Number (QStr '''') = Fin 200"
    by blast
  with a3 have r5: "matches_limit (Some (QStr '''')) \<noteq> Fin 200"
    by simp
  from c3 a4 have r6: "matches_limit (Some (QStr ''-5'')) = Fin (- 5)"
    by blast
  from c3 a4 have r7: "listMyMatches ?none ex_seven ?u (Some (QStr ''-5'')) = json (MyMatchesBody [])"
    by (simp add: zero)
  from c4 a5 have r8: "matches_limit (Some (QStr ''-Infinity'')) = NegInf"
    by blast
  from c5 a6 have r9: "matches_limit (Some (QStr ''-1e309'')) = NegInf"
    by blast
  from a2 have t: "trim ''abc'' = ''abc''" by simp
  show ?thesis
    by (intro conjI) (fact a1 r1 t r2 r3 r4 seven a3 r5 r6 r7 a6 r9 a5 r8 | rule conjunct1 [OF a4])+
qed

subsection \<open>The collaborators of a problem\<close>

lemma set_order_desc: "set (order_desc f xs) = set xs"
  by (simp add: order_desc_def)

lemma length_order_desc: "length (order_desc f xs) = length xs"
  by (simp add: order_desc_def)

lemma sorted_order_desc: "sorted_wrt (\<lambda>a b. f b \<le> f a) (order_desc f xs)"
proof -
  have "sorted (map f (sort_key f xs))" by (rule sorted_sort_key)
  then have "sorted_wrt (\<lambda>a b. f a \<le> f b) (sort_key f xs)"
    by (simp add: sorted_wrt_map)
  then show ?thesis
    by (simp add: order_desc_def sorted_wrt_rev)
qed

lemma sorted_take_desc:
  "sorted_wrt (\<lambda>a b. f b \<le> f a) (take n (order_desc f xs))"
  by (rule sorted_wrt_take [OF sorted_order_desc])

lemma take_most_recent:
  assumes "x \<in> set (take n (order_desc f xs))" and "y \<in> set (drop n (order_desc f xs))"
  shows "f y \<le> f x"
proof -
  have "sorted_wrt (\<lambda>a b. f b \<le> f a) (take n (order_desc f xs) @ drop n (order_desc f xs))"
    by (simp add: sorted_order_desc)
  with assms show ?thesis
    unfolding sorted_wrt_append by blast
qed

lemma toUpperCase_Nil: "toUpperCase [] = Some []"
  by (simp add: toUpperCase_def)

lemma toUpperCase_Cons:
  "toUpperCase (c # s) =
     (case toUpperChar c of
        None \<Rightarrow> None
      | Some e \<Rightarrow> map_option ((@) e) (toUpperCase s))"
  by (cases "toUpperChar c"; cases "those (map toUpperChar s)") (simp_all add: toUpperCase_def)

lemma code_char_of: "n < 256 \<Longrightarrow> code (char_of n) = n"
  by (simp add: code_def)

lemma code_less: "code c < 256"
  by (simp add: code_def)

lemma char_of_code: "char_of (code c) = c"
  by (simp add: code_def)

lemma toUpperChar_single:
  assumes "code c \<noteq> 223" and "toUpperChar c = Some e"
  shows "\<exists>x. e = [x] \<and> toLowerChar x = toLowerChar c"
proof (cases "(97 \<le> code c \<and> code c \<le> 122) \<or> (224 \<le> code c \<and> code c \<le> 254 \<and> code c \<noteq> 247)")
  case True
  let ?x = "char_of (code c - 32) :: char"
  from True have cx: "code ?x = code c - 32"
    by (intro code_char_of) auto
  from True assms have e: "e = [?x]" by (auto simp: toUpperChar_def)
  from True cx have "toLowerChar ?x = char_of (code c - 32 + 32)"
    unfolding toLowerChar_def by auto
  also from True have "\<dots> = c" by (auto simp: char_of_code)
  also from True have "c = toLowerChar c" unfolding toLowerChar_def by auto
  finally show ?thesis using e by blast
next
  case False
  with assms have "e = [c]" by (auto simp: toUpperChar_def split: if_splits)
  then show ?thesis by blast
qed

lemma toUpperCase_lower:
  "toUpperCase s = Some t \<Longrightarrow> CHR 0xDF \<notin> set s \<Longrightarrow> toLowerCase t = toLowerCase s"
proof (induction s arbitrary: t)
  case Nil
  then show ?case by (simp add: toUpperCase_Nil)
next
  case (Cons c s)
  have "code CHR 0xDF = 223" by (simp add: code_def)
  moreover from Cons.prems(2) have "c \<noteq> CHR 0xDF" and s: "CHR 0xDF \<notin> set s"
    by auto
  ultimately have c: "code c \<noteq> 223"
    using code_eq_iff [of c "CHR 0xDF"] by simp
  from Cons.prems(1) obtain e t' where e: "toUpperChar c = Some e"
    and t': "toUpperCase s = Some t'" and t: "t = e @ t'"
    by (auto simp: toUpperCase_Cons split: option.splits)
  from toUpperChar_single [OF c e] obtain x where x: "e = [x]" "toLowerChar x = toLowerChar c"
    by blast
  from Cons.IH [OF t' s] x show ?case
    by (simp add: t toLowerCase_def)
qed

lemma toUpperCase_sharp_s:
  "toUpperCase s = Some t \<Longrightarrow> CHR 0xDF \<in> set s \<Longrightarrow> sublist ''SS'' t"
proof (induction s arbitrary: t)
  case Nil
  then show ?case by simp
next
  case (Cons c s)
  from Cons.prems(1) obtain e t' where e: "toUpperChar c = Some e"
    and t': "toUpperCase s = Some t'" and t: "t = e @ t'"
    by (auto simp: toUpperCase_Cons split: option.splits)
  show ?case
  proof (cases "c = CHR 0xDF")
    case True
    then have "toUpperChar c = Some ''SS''" by (simp add: toUpperChar_def code_def)
    with e have "e = ''SS''" by simp
    then have "t = [] @ ''SS'' @ t'" by (simp add: t)
    then show ?thesis unfolding sublist_def by blast
  next
    case False
    with Cons.prems(2) have "CHR 0xDF \<in> set s" by simp
    from Cons.IH [OF t' this] obtain pre suf where "t' = pre @ ''SS'' @ suf"
      unfolding sublist_def by blast
    then have "t = (e @ pre) @ ''SS'' @ suf" by (simp add: t)
    then show ?thesis unfolding sublist_def by blast
  qed
qed

lemma toUpperCase_of_lower:
  "list_all (\<lambda>c. 97 \<le> code c \<and> code c \<le> 122) (toLowerCase s) \<Longrightarrow>
   toUpperCase s = Some (map (\<lambda>c. char_of (code c - 32)) (toLowerCase s))"
proof (induction s)
  case Nil
  then show ?case by (simp add: toUpperCase_Nil toLowerCase_def)
next
  case (Cons c s)
  from Cons.prems have l: "97 \<le> code (toLowerChar c)" "code (toLowerChar c) \<le> 122"
    and rest: "list_all (\<lambda>c. 97 \<le> code c \<and> code c \<le> 122) (toLowerCase s)"
    by (simp_all add: toLowerCase_def)
  have "toUpperChar c = Some [char_of (code (toLowerChar c) - 32)]"
  proof (cases "65 \<le> code c \<and> code c \<le> 90")
    case True
    then have lc: "code (toLowerChar c) = code c + 32"
      unfolding toLowerChar_def by (simp add: code_char_of)
    from True have "toUpperChar c = Some [c]" by (auto simp: toUpperChar_def)
    with lc show ?thesis by (simp add: char_of_code)
  next
    case False
    show ?thesis
    proof (cases "192 \<le> code c \<and> code c \<le> 222 \<and> code c \<noteq> 215")
      case True
      then have "code (toLowerChar c) = code c + 32"
        unfolding toLowerChar_def by (simp add: code_char_of)
      with l True show ?thesis by simp
    next
      case hi: False
      with False have "toLowerChar c = c" unfolding toLowerChar_def by auto
      with l show ?thesis by (auto simp: toUpperChar_def)
    qed
  qed
  with Cons.IH [OF rest] show ?case
    by (simp add: toUpperCase_Cons toLowerCase_def)
qed

lemma upper_SOLVER: "toLowerCase ''SOLVER'' = ''solver''" "toLowerCase ''AFFECTED'' = ''affected''"
  "map (\<lambda>c. char_of (code c - 32)) ''solver'' = ''SOLVER''"
  "map (\<lambda>c. char_of (code c - 32)) ''affected'' = ''AFFECTED''"
  "list_all (\<lambda>c. 97 \<le> code c \<and> code c \<le> 122) ''solver''"
  "list_all (\<lambda>c. 97 \<le> code c \<and> code c \<le> 122) ''affected''"
  "\<not> sublist ''SS'' ''SOLVER''" "\<not> sublist ''SS'' ''AFFECTED''"
  by code_simp+

lemma upper_is_SOLVER: "toUpperCase s = Some ''SOLVER'' \<longleftrightarrow> ci_equal s ''SOLVER''"
proof
  assume u: "toUpperCase s = Some ''SOLVER''"
  have "CHR 0xDF \<notin> set s"
  proof
    assume "CHR 0xDF \<in> set s"
    from toUpperCase_sharp_s [OF u this] show False by (simp only: upper_SOLVER)
  qed
  from toUpperCase_lower [OF u this] show "ci_equal s ''SOLVER''"
    by (simp add: ci_equal_def)
next
  assume "ci_equal s ''SOLVER''"
  then have l: "toLowerCase s = ''solver''" by (simp add: ci_equal_def upper_SOLVER)
  have "toUpperCase s = Some (map (\<lambda>c. char_of (code c - 32)) (toLowerCase s))"
    by (rule toUpperCase_of_lower) (simp only: l upper_SOLVER)
  then show "toUpperCase s = Some ''SOLVER''" by (simp only: l upper_SOLVER)
qed

lemma upper_is_AFFECTED: "toUpperCase s = Some ''AFFECTED'' \<longleftrightarrow> ci_equal s ''AFFECTED''"
proof
  assume u: "toUpperCase s = Some ''AFFECTED''"
  have "CHR 0xDF \<notin> set s"
  proof
    assume "CHR 0xDF \<in> set s"
    from toUpperCase_sharp_s [OF u this] show False by (simp only: upper_SOLVER)
  qed
  from toUpperCase_lower [OF u this] show "ci_equal s ''AFFECTED''"
    by (simp add: ci_equal_def)
next
  assume "ci_equal s ''AFFECTED''"
  then have l: "toLowerCase s = ''affected''" by (simp add: ci_equal_def upper_SOLVER)
  have "toUpperCase s = Some (map (\<lambda>c. char_of (code c - 32)) (toLowerCase s))"
    by (rule toUpperCase_of_lower) (simp only: l upper_SOLVER)
  then show "toUpperCase s = Some ''AFFECTED''" by (simp only: l upper_SOLVER)
qed

lemma role_filter_ci:
  "role_filter role =
     (case role of
        Some (QStr s) \<Rightarrow>
          if ci_equal (trim s) ''SOLVER'' then Some ''SOLVER''
          else if ci_equal (trim s) ''AFFECTED'' then Some ''AFFECTED''
          else None
      | _ \<Rightarrow> None)"
  by (auto simp: role_filter_def Let_def upper_is_SOLVER [symmetric] upper_is_AFFECTED [symmetric]
      split: option.splits qval.splits)

lemma find_unique:
  "distinct (map f xs) \<Longrightarrow> x \<in> set xs \<Longrightarrow> f x = k \<Longrightarrow> find (\<lambda>y. f y = k) xs = Some x"
proof (induction xs)
  case Nil
  then show ?case by simp
next
  case (Cons a xs)
  then show ?case by (cases "f a = k") force+
qed

lemma find_absent: "k \<notin> set (map f xs) \<Longrightarrow> find (\<lambda>y. f y = k) xs = None"
  by (auto simp: find_None_iff)

lemma select_matches_of_problem_rows:
  "map fst (select_matches_of_problem d problemId rf n) =
   take n (order_desc m_created_at
     (filter (\<lambda>m. m_problem_id m = uuid_in problemId \<and>
                  (case rf of None \<Rightarrow> True | Some r \<Rightarrow> m_role m = r)) (problem_matches d)))"
  by (simp add: select_matches_of_problem_def comp_def)

lemma select_matches_of_problem_join:
  "r \<in> set (select_matches_of_problem d problemId rf n) \<Longrightarrow>
   snd r = find (\<lambda>u. u_id u = m_user_id (fst r)) (users d)"
  by (auto simp: select_matches_of_problem_def)

lemmas ex2_defs = ex_user2_def ex_match2_def ex_db2_def ex_orphans_def

lemma ex_all: "listCollaborators ex_db2 (p_id ex_problem) None =
     json (CollaboratorsBody (p_id ex_problem)
       [\<lparr>c_user_id = Some (u_id ex_user2), c_user_display_name = None,
         c_role = ''AFFECTED'', c_matched_at = 35\<rparr>,
        \<lparr>c_user_id = Some (u_id ex_user), c_user_display_name = Some ''Ana'',
         c_role = ''SOLVER'', c_matched_at = 30\<rparr>])"
  unfolding ex_defs ex2_defs by code_simp

lemma ex_solver: "listCollaborators ex_db2 (p_id ex_problem) (Some (QStr '' solver'')) =
     json (CollaboratorsBody (p_id ex_problem)
       [\<lparr>c_user_id = Some (u_id ex_user), c_user_display_name = Some ''Ana'',
         c_role = ''SOLVER'', c_matched_at = 30\<rparr>])"
  unfolding ex_defs ex2_defs by code_simp

text \<open>
  C7, as the specification states it: a role that is not \<open>SOLVER\<close> or \<open>AFFECTED\<close> up to
  case is ignored. The handler trims the parameter first, so a role with white space
  around it is not ignored.
\<close>

theorem role_filter_untrimmed_counterexample:
  "\<not> ci_equal '' solver'' ''SOLVER'' \<and> \<not> ci_equal '' solver'' ''AFFECTED'' \<and>
   listCollaborators ex_db2 (p_id ex_problem) (Some (QStr '' solver'')) \<noteq>
     listCollaborators ex_db2 (p_id ex_problem) None"
proof -
  have "\<not> ci_equal '' solver'' ''SOLVER'' \<and> \<not> ci_equal '' solver'' ''AFFECTED''"
    unfolding ci_equal_def by code_simp
  moreover have "listCollaborators ex_db2 (p_id ex_problem) (Some (QStr '' solver'')) \<noteq>
     listCollaborators ex_db2 (p_id ex_problem) None"
    unfolding ex_all ex_solver by (simp add: json_def)
  ultimately show ?thesis by blast
qed

text \<open>
  C7, amended. \<open>listCollaborators\<close> answers 400 for every problem id that is not a UUID.
  The role of the query is trimmed and then matched case-insensitively against \<open>SOLVER\<close>
  and \<open>AFFECTED\<close>; any other value is treated as absent. For a UUID the answer lists at most
  500 items, ordered by match time descending, each the role and match time of a match
  row of that problem together with the id and display name of the row's user; with a
  role filter every item has that role; the number of items is the number of such rows,
  capped at 500.
\<close>

theorem listCollaborators_contract:
  "(\<not> isUuid (JString problemId) \<longrightarrow>
      listCollaborators d problemId role =
        status_json 400 (ErrorBody ''problem id must be a uuid'')) \<and>
   role_filter role =
     (case role of
        Some (QStr s) \<Rightarrow>
          if ci_equal (trim s) ''SOLVER'' then Some ''SOLVER''
          else if ci_equal (trim s) ''AFFECTED'' then Some ''AFFECTED''
          else None
      | _ \<Rightarrow> None) \<and>
   (role_filter role = None \<longrightarrow>
      listCollaborators d problemId role = listCollaborators d problemId None) \<and>
   (isUuid (JString problemId) \<longrightarrow>
      (\<exists>items.
         listCollaborators d problemId role = json (CollaboratorsBody problemId items) \<and>
         length items \<le> 500 \<and>
         sorted_wrt (\<lambda>a b. c_matched_at b \<le> c_matched_at a) items \<and>
         (\<forall>r. role_filter role = Some r \<longrightarrow> (\<forall>i \<in> set items. c_role i = r)) \<and>
         (\<forall>i \<in> set items. \<exists>m \<in> set (problem_matches d).
            m_problem_id m = uuid_in problemId \<and> c_role i = m_role m \<and>
            c_matched_at i = m_created_at m \<and>
            (\<forall>u \<in> set (users d). distinct (map u_id (users d)) \<and> u_id u = m_user_id m \<longrightarrow>
               c_user_id i = Some (u_id u) \<and> c_user_display_name i = u_display_name u)) \<and>
         length items =
           min 500 (length (filter
             (\<lambda>m. m_problem_id m = uuid_in problemId \<and>
                  (case role_filter role of None \<Rightarrow> True | Some r \<Rightarrow> m_role m = r))
             (problem_matches d)))))"
proof (intro conjI impI)
  assume "\<not> isUuid (JString problemId)"
  then show "listCollaborators d problemId role =
      status_json 400 (ErrorBody ''problem id must be a uuid'')"
    by (simp add: listCollaborators_def)
next
  show "role_filter role =
     (case role of
        Some (QStr s) \<Rightarrow>
          if ci_equal (trim s) ''SOLVER'' then Some ''SOLVER''
          else if ci_equal (trim s) ''AFFECTED'' then Some ''AFFECTED''
          else None
      | _ \<Rightarrow> None)"
    by (rule role_filter_ci)
next
  assume "role_filter role = None"
  moreover have "role_filter None = None" by (simp add: role_filter_def)
  ultimately show "listCollaborators d problemId role = listCollaborators d problemId None"
    by (simp add: listCollaborators_def)
next
  assume uuid: "isUuid (JString problemId)"
  let ?sel = "\<lambda>m. m_problem_id m = uuid_in problemId \<and>
                  (case role_filter role of None \<Rightarrow> True | Some r \<Rightarrow> m_role m = r)"
  let ?rows = "select_matches_of_problem d problemId (role_filter role) 500"
  let ?items = "map collaborator_item ?rows"
  have ms: "map fst ?rows = take 500 (order_desc m_created_at (filter ?sel (problem_matches d)))"
    by (rule select_matches_of_problem_rows)
  have res: "listCollaborators d problemId role = json (CollaboratorsBody problemId ?items)"
    using uuid by (simp add: listCollaborators_def)
  have len: "length ?items = min 500 (length (filter ?sel (problem_matches d)))"
  proof -
    have "length ?items = length (map fst ?rows)" by simp
    also have "\<dots> = min 500 (length (filter ?sel (problem_matches d)))"
      by (simp only: ms length_take length_order_desc min.commute)
    finally show ?thesis .
  qed
  have sorted: "sorted_wrt (\<lambda>a b. c_matched_at b \<le> c_matched_at a) ?items"
  proof -
    have "sorted_wrt (\<lambda>a b. m_created_at b \<le> m_created_at a) (map fst ?rows)"
      by (simp only: ms sorted_take_desc)
    then show ?thesis
      by (simp add: sorted_wrt_map collaborator_item_def)
  qed
  have mem: "fst r \<in> set (filter ?sel (problem_matches d))" if "r \<in> set ?rows" for r
  proof -
    from that have "fst r \<in> set (map fst ?rows)" by simp
    then have "fst r \<in> set (take 500 (order_desc m_created_at (filter ?sel (problem_matches d))))"
      by (simp only: ms)
    then have "fst r \<in> set (order_desc m_created_at (filter ?sel (problem_matches d)))"
      by (rule in_set_takeD)
    then show ?thesis by (simp only: set_order_desc)
  qed
  have role: "\<forall>r. role_filter role = Some r \<longrightarrow> (\<forall>i \<in> set ?items. c_role i = r)"
    using mem by (auto simp: collaborator_item_def)
  have join: "\<forall>i \<in> set ?items. \<exists>m \<in> set (problem_matches d).
            m_problem_id m = uuid_in problemId \<and> c_role i = m_role m \<and>
            c_matched_at i = m_created_at m \<and>
            (\<forall>u \<in> set (users d). distinct (map u_id (users d)) \<and> u_id u = m_user_id m \<longrightarrow>
               c_user_id i = Some (u_id u) \<and> c_user_display_name i = u_display_name u)"
  proof
    fix i assume "i \<in> set ?items"
    then obtain r where r: "r \<in> set ?rows" and i: "i = collaborator_item r" by auto
    from mem [OF r] have m: "fst r \<in> set (problem_matches d)" "m_problem_id (fst r) = uuid_in problemId"
      by simp_all
    have user: "c_user_id i = Some (u_id u) \<and> c_user_display_name i = u_display_name u"
      if "u \<in> set (users d)" "distinct (map u_id (users d))" "u_id u = m_user_id (fst r)" for u
    proof -
      from that have "find (\<lambda>y. u_id y = m_user_id (fst r)) (users d) = Some u"
        by (intro find_unique) simp_all
      with select_matches_of_problem_join [OF r] have "snd r = Some u" by simp
      then show ?thesis by (simp add: i collaborator_item_def)
    qed
    show "\<exists>m \<in> set (problem_matches d).
            m_problem_id m = uuid_in problemId \<and> c_role i = m_role m \<and>
            c_matched_at i = m_created_at m \<and>
            (\<forall>u \<in> set (users d). distinct (map u_id (users d)) \<and> u_id u = m_user_id m \<longrightarrow>
               c_user_id i = Some (u_id u) \<and> c_user_display_name i = u_display_name u)"
    proof (rule bexI [of _ "fst r"])
      show "fst r \<in> set (problem_matches d)" by fact
      show "m_problem_id (fst r) = uuid_in problemId \<and> c_role i = m_role (fst r) \<and>
            c_matched_at i = m_created_at (fst r) \<and>
            (\<forall>u \<in> set (users d). distinct (map u_id (users d)) \<and> u_id u = m_user_id (fst r) \<longrightarrow>
               c_user_id i = Some (u_id u) \<and> c_user_display_name i = u_display_name u)"
        using m(2) user by (simp add: i collaborator_item_def)
    qed
  qed
  have le: "length ?items \<le> 500" by (simp only: len min.cobounded1)
  from res le sorted role join len
  show "\<exists>items.
         listCollaborators d problemId role = json (CollaboratorsBody problemId items) \<and>
         length items \<le> 500 \<and>
         sorted_wrt (\<lambda>a b. c_matched_at b \<le> c_matched_at a) items \<and>
         (\<forall>r. role_filter role = Some r \<longrightarrow> (\<forall>i \<in> set items. c_role i = r)) \<and>
         (\<forall>i \<in> set items. \<exists>m \<in> set (problem_matches d).
            m_problem_id m = uuid_in problemId \<and> c_role i = m_role m \<and>
            c_matched_at i = m_created_at m \<and>
            (\<forall>u \<in> set (users d). distinct (map u_id (users d)) \<and> u_id u = m_user_id m \<longrightarrow>
               c_user_id i = Some (u_id u) \<and> c_user_display_name i = u_display_name u)) \<and>
         length items = min 500 (length (filter ?sel (problem_matches d)))"
    by (intro exI [of _ ?items] conjI)
qed

theorem listCollaborators_contract_witness:
  "listCollaborators ex_db2 ''nope'' None =
     status_json 400 (ErrorBody ''problem id must be a uuid'') \<and>
   role_filter (Some (QStr ''Solver '')) = Some ''SOLVER'' \<and>
   role_filter (Some (QStr ''owner'')) = None \<and>
   listCollaborators ex_db2 (p_id ex_problem) (Some (QStr ''owner'')) =
     listCollaborators ex_db2 (p_id ex_problem) None \<and>
   isUuid (JString (p_id ex_problem)) \<and>
   (\<exists>items.
      listCollaborators ex_db2 (p_id ex_problem) (Some (QStr ''Solver '')) =
        json (CollaboratorsBody (p_id ex_problem) items) \<and>
      length items = 1 \<and> list_all (\<lambda>i. c_role i = ''SOLVER'') items) \<and>
   listCollaborators ex_db2 (p_id ex_problem) (Some (QStr ''Solver '')) =
     json (CollaboratorsBody (p_id ex_problem)
       [\<lparr>c_user_id = Some (u_id ex_user), c_user_display_name = Some ''Ana'',
         c_role = ''SOLVER'', c_matched_at = 30\<rparr>])"
proof -
  let ?P = "p_id ex_problem"
  have full: "listCollaborators ex_db2 ?P (Some (QStr ''Solver '')) =
     json (CollaboratorsBody ?P
       [\<lparr>c_user_id = Some (u_id ex_user), c_user_display_name = Some ''Ana'',
         c_role = ''SOLVER'', c_matched_at = 30\<rparr>])"
    unfolding ex_defs ex2_defs by code_simp
  have a1: "\<not> isUuid (JString ''nope'')" by code_simp
  have a2: "ci_equal (trim ''Solver '') ''SOLVER''"
    unfolding ci_equal_def by code_simp
  have a3: "\<not> ci_equal (trim ''owner'') ''SOLVER'' \<and> \<not> ci_equal (trim ''owner'') ''AFFECTED''"
    unfolding ci_equal_def by code_simp
  have a4: "isUuid (JString ?P)"
    unfolding ex_defs by code_simp
  have a5: "length (filter (\<lambda>m. m_problem_id m = uuid_in ?P \<and> m_role m = ''SOLVER'')
      (problem_matches ex_db2)) = 1"
    unfolding ex_defs ex2_defs by code_simp
  note c1 = listCollaborators_contract [where problemId = "''nope''" and d = ex_db2 and role = None]
  note c2 = listCollaborators_contract [where problemId = ?P and d = ex_db2
      and role = "Some (QStr ''Solver '')"]
  note c3 = listCollaborators_contract [where problemId = ?P and d = ex_db2
      and role = "Some (QStr ''owner'')"]
  from c1 a1 have r1: "listCollaborators ex_db2 ''nope'' None =
      status_json 400 (ErrorBody ''problem id must be a uuid'')"
    by blast
  from c2 a2 have r2: "role_filter (Some (QStr ''Solver '')) = Some ''SOLVER''"
    by simp
  from c3 a3 have r3: "role_filter (Some (QStr ''owner'')) = None"
    by simp
  from c3 r3 have r4: "listCollaborators ex_db2 ?P (Some (QStr ''owner'')) =
      listCollaborators ex_db2 ?P None"
    by blast
  from c2 a4 obtain items where
    i1: "listCollaborators ex_db2 ?P (Some (QStr ''Solver '')) = json (CollaboratorsBody ?P items)"
    and i2: "\<forall>r. role_filter (Some (QStr ''Solver '')) = Some r \<longrightarrow> (\<forall>i \<in> set items. c_role i = r)"
    and i3: "length items = min 500 (length (filter
             (\<lambda>m. m_problem_id m = uuid_in ?P \<and>
                  (case role_filter (Some (QStr ''Solver '')) of None \<Rightarrow> True | Some r \<Rightarrow> m_role m = r))
             (problem_matches ex_db2)))"
    by blast
  from i2 r2 have "list_all (\<lambda>i. c_role i = ''SOLVER'') items"
    by (simp add: list_all_iff)
  moreover from i3 have "length items = 1"
    unfolding r2 by (simp add: a5)
  ultimately have "\<exists>items.
      listCollaborators ex_db2 ?P (Some (QStr ''Solver '')) = json (CollaboratorsBody ?P items) \<and>
      length items = 1 \<and> list_all (\<lambda>i. c_role i = ''SOLVER'') items"
    using i1 by blast
  with r1 r2 r3 r4 a4 full show ?thesis by blast
qed

subsection \<open>Rows whose joined row does not resolve\<close>

lemma find_resolves: "(\<exists>x. find (\<lambda>y. f y = k) xs = Some x) \<longleftrightarrow> k \<in> set (map f xs)"
proof (cases "find (\<lambda>y. f y = k) xs")
  case None
  then have "k \<notin> set (map f xs)" by (auto simp: find_None_iff)
  with None show ?thesis by simp
next
  case (Some x)
  then have "x \<in> set xs" "f x = k" by (auto simp: find_Some_iff)
  then have "k \<in> set (map f xs)" by force
  with Some show ?thesis by simp
qed

lemma my_matches_items:
  "map my_match_item (filter (\<lambda>r. snd r \<noteq> None) (matches_of_user d userId (Some n))) =
   map (\<lambda>m. \<lparr>mm_role = m_role m, mm_matched_at = m_created_at m,
              mm_problem = the (find (\<lambda>p. p_id p = m_problem_id m) (problems d))\<rparr>)
     (filter (\<lambda>m. m_problem_id m \<in> set (map p_id (problems d)))
        (take n (order_desc m_created_at
           (filter (\<lambda>m. m_user_id m = uuid_in userId) (problem_matches d)))))"
  by (simp add: matches_of_user_def limit_rows_def filter_map comp_def my_match_item_def
      find_resolves del: set_map)

lemma listMyMatches_counted:
  assumes "limit_count (matches_limit limit) = Some n"
  shows "listMyMatches L d userId limit =
     json (MyMatchesBody
       (map my_match_item
          (filter (\<lambda>r. snd r \<noteq> None) (matches_of_user d userId (Some n)))))"
  unfolding listMyMatches_def select_matches_of_user_def store_limit_def assms
  by (simp only: option.case sum.case)

text \<open>
  C10. \<open>listCollaborators\<close> makes one item of each row the store selects, in the same
  order, also of a row whose user does not resolve: that item has \<open>null\<close> for the user's id
  and display name. \<open>listMyMatches\<close> makes items only of the selected rows whose problem
  resolves, and drops the others.
\<close>

theorem unresolved_rows:
  "(isUuid (JString problemId) \<longrightarrow>
      (\<exists>items.
         listCollaborators d problemId role = json (CollaboratorsBody problemId items) \<and>
         map c_role items = map m_role (map fst (select_matches_of_problem d problemId (role_filter role) 500)) \<and>
         map c_matched_at items =
           map m_created_at (map fst (select_matches_of_problem d problemId (role_filter role) 500)) \<and>
         (\<forall>k < length items.
            m_user_id (fst (select_matches_of_problem d problemId (role_filter role) 500 ! k))
              \<notin> set (map u_id (users d)) \<longrightarrow>
            c_user_id (items ! k) = None \<and> c_user_display_name (items ! k) = None))) \<and>
   (limit_count (matches_limit limit) = Some n \<longrightarrow>
      (\<exists>items.
         listMyMatches L d userId limit = json (MyMatchesBody items) \<and>
         map (\<lambda>i. (mm_role i, mm_matched_at i)) items =
           map (\<lambda>m. (m_role m, m_created_at m))
             (filter (\<lambda>m. m_problem_id m \<in> set (map p_id (problems d)))
                (map fst (matches_of_user d userId (Some n))))))"
proof (intro conjI impI)
  assume uuid: "isUuid (JString problemId)"
  let ?rows = "select_matches_of_problem d problemId (role_filter role) 500"
  let ?items = "map collaborator_item ?rows"
  have "listCollaborators d problemId role = json (CollaboratorsBody problemId ?items)"
    using uuid by (simp add: listCollaborators_def)
  moreover have "map c_role ?items = map m_role (map fst ?rows)"
    "map c_matched_at ?items = map m_created_at (map fst ?rows)"
    by (simp_all add: collaborator_item_def)
  moreover have "\<forall>k < length ?items.
      m_user_id (fst (?rows ! k)) \<notin> set (map u_id (users d)) \<longrightarrow>
      c_user_id (?items ! k) = None \<and> c_user_display_name (?items ! k) = None"
  proof (intro allI impI)
    fix k assume k: "k < length ?items"
      and absent: "m_user_id (fst (?rows ! k)) \<notin> set (map u_id (users d))"
    from k have "?rows ! k \<in> set ?rows" by simp
    then have "snd (?rows ! k) = find (\<lambda>u. u_id u = m_user_id (fst (?rows ! k))) (users d)"
      by (rule select_matches_of_problem_join)
    with find_absent [OF absent] have "snd (?rows ! k) = None"
      by simp
    with k show "c_user_id (?items ! k) = None \<and> c_user_display_name (?items ! k) = None"
      by (simp add: collaborator_item_def)
  qed
  ultimately show "\<exists>items.
         listCollaborators d problemId role = json (CollaboratorsBody problemId items) \<and>
         map c_role items = map m_role (map fst ?rows) \<and>
         map c_matched_at items = map m_created_at (map fst ?rows) \<and>
         (\<forall>k < length items.
            m_user_id (fst (?rows ! k)) \<notin> set (map u_id (users d)) \<longrightarrow>
            c_user_id (items ! k) = None \<and> c_user_display_name (items ! k) = None)"
    by (intro exI [of _ ?items] conjI)
next
  assume n: "limit_count (matches_limit limit) = Some n"
  let ?items = "map my_match_item
    (filter (\<lambda>r. snd r \<noteq> None) (matches_of_user d userId (Some n)))"
  have "listMyMatches L d userId limit = json (MyMatchesBody ?items)"
    by (rule listMyMatches_counted [OF n])
  moreover have "map (\<lambda>i. (mm_role i, mm_matched_at i)) ?items =
      map (\<lambda>m. (m_role m, m_created_at m))
        (filter (\<lambda>m. m_problem_id m \<in> set (map p_id (problems d)))
           (map fst (matches_of_user d userId (Some n))))"
    by (simp only: my_matches_items) (simp add: matches_of_user_def limit_rows_def comp_def)
  ultimately show "\<exists>items.
         listMyMatches L d userId limit = json (MyMatchesBody items) \<and>
         map (\<lambda>i. (mm_role i, mm_matched_at i)) items =
           map (\<lambda>m. (m_role m, m_created_at m))
             (filter (\<lambda>m. m_problem_id m \<in> set (map p_id (problems d)))
                (map fst (matches_of_user d userId (Some n))))"
    by (intro exI [of _ ?items] conjI)
qed

theorem unresolved_rows_witness:
  "listCollaborators ex_orphans (p_id ex_problem) None =
     json (CollaboratorsBody (p_id ex_problem)
       [\<lparr>c_user_id = None, c_user_display_name = None,
         c_role = ''AFFECTED'', c_matched_at = 35\<rparr>,
        \<lparr>c_user_id = Some (u_id ex_user), c_user_display_name = Some ''Ana'',
         c_role = ''SOLVER'', c_matched_at = 30\<rparr>]) \<and>
   length (matches_of_user ex_orphans (u_id ex_user) (Some 200)) = 1 \<and>
   listMyMatches (\<lambda>n. Inl RequestRefused) ex_orphans (u_id ex_user) None =
     json (MyMatchesBody [])"
proof -
  let ?P = "p_id ex_problem"
  have a2: "limit_count (matches_limit None) = Some 200"
    by code_simp
  have mine: "filter (\<lambda>m. m_problem_id m \<in> set (map p_id (problems ex_orphans)))
      (map fst (matches_of_user ex_orphans (u_id ex_user) (Some 200))) = []"
    unfolding ex_defs ex2_defs by code_simp
  have one: "length (matches_of_user ex_orphans (u_id ex_user) (Some 200)) = 1"
    unfolding ex_defs ex2_defs by code_simp
  have full: "listCollaborators ex_orphans ?P None =
     json (CollaboratorsBody ?P
       [\<lparr>c_user_id = None, c_user_display_name = None,
         c_role = ''AFFECTED'', c_matched_at = 35\<rparr>,
        \<lparr>c_user_id = Some (u_id ex_user), c_user_display_name = Some ''Ana'',
         c_role = ''SOLVER'', c_matched_at = 30\<rparr>])"
    unfolding ex_defs ex2_defs by code_simp
  note c = unresolved_rows [where problemId = ?P and d = ex_orphans and role = None
      and limit = None and n = 200 and userId = "u_id ex_user"
      and L = "\<lambda>n. Inl RequestRefused"]
  from c a2 obtain items where
    "listMyMatches (\<lambda>n. Inl RequestRefused) ex_orphans (u_id ex_user) None =
       json (MyMatchesBody items)"
    and "map (\<lambda>i. (mm_role i, mm_matched_at i)) items =
           map (\<lambda>m. (m_role m, m_created_at m))
             (filter (\<lambda>m. m_problem_id m \<in> set (map p_id (problems ex_orphans)))
                (map fst (matches_of_user ex_orphans (u_id ex_user) (Some 200))))"
    by blast
  then have "listMyMatches (\<lambda>n. Inl RequestRefused) ex_orphans (u_id ex_user) None =
      json (MyMatchesBody [])"
    unfolding mine by simp
  with full one show ?thesis by blast
qed

subsection \<open>My matches\<close>






subsection \<open>The problem catalogue\<close>

lemma like_match_lits:
  "like_match (map Lit y @ ts) s \<longleftrightarrow> (\<exists>r. s = y @ r \<and> like_match ts r)"
proof (induction y arbitrary: s)
  case Nil
  then show ?case by simp
next
  case (Cons c y)
  then show ?case by (cases s) auto
qed

lemma like_match_any_run:
  "like_match (AnyRun # ts) s \<longleftrightarrow> (\<exists>pre suf. s = pre @ suf \<and> like_match ts suf)"
proof (induction s)
  case Nil
  then show ?case by simp
next
  case (Cons c s)
  show ?case
  proof
    assume "like_match (AnyRun # ts) (c # s)"
    then consider "like_match ts (c # s)" | "like_match (AnyRun # ts) s" by auto
    then show "\<exists>pre suf. c # s = pre @ suf \<and> like_match ts suf"
    proof cases
      case 1
      then have "c # s = [] @ (c # s) \<and> like_match ts (c # s)" by simp
      then show ?thesis by blast
    next
      case 2
      with Cons.IH obtain pre suf where "s = pre @ suf" "like_match ts suf" by blast
      then have "c # s = (c # pre) @ suf \<and> like_match ts suf" by simp
      then show ?thesis by blast
    qed
  next
    assume "\<exists>pre suf. c # s = pre @ suf \<and> like_match ts suf"
    then obtain pre suf where ps: "c # s = pre @ suf" "like_match ts suf" by blast
    show "like_match (AnyRun # ts) (c # s)"
    proof (cases pre)
      case Nil
      with ps show ?thesis by simp
    next
      case (Cons a pre')
      with ps have "s = pre' @ suf" by simp
      with ps(2) Cons.IH have "like_match (AnyRun # ts) s" by blast
      then show ?thesis by simp
    qed
  qed
qed

lemma like_match_contains:
  "like_match (AnyRun # map Lit y @ [AnyRun]) s \<longleftrightarrow> sublist y s"
proof -
  have run: "like_match [AnyRun] r" for r
    by (induction r) simp_all
  have lit: "like_match (map Lit y @ [AnyRun]) suf \<longleftrightarrow> (\<exists>r. suf = y @ r)" for suf
    unfolding like_match_lits using run by simp
  show ?thesis
    unfolding like_match_any_run lit sublist_def by blast
qed

lemma special_codes:
  "c \<in> set ''%_*'' \<or> c = CHR 0x5C \<longleftrightarrow> code c \<in> {37, 95, 42, 92}"
proof -
  have "code CHR ''%'' = 37" "code CHR ''_'' = 95" "code CHR ''*'' = 42" "code CHR 0x5C = 92"
    by (simp_all add: code_def)
  then show ?thesis
    by (auto simp: code_eq_iff [of c])
qed

lemma toLowerChar_plain:
  "toLowerChar c \<in> set ''%_*'' \<or> toLowerChar c = CHR 0x5C \<longleftrightarrow> c \<in> set ''%_*'' \<or> c = CHR 0x5C"
proof (cases "(65 \<le> code c \<and> code c \<le> 90) \<or> (192 \<le> code c \<and> code c \<le> 222 \<and> code c \<noteq> 215)")
  case True
  then have "code (toLowerChar c) = code c + 32"
    unfolding toLowerChar_def by (auto simp: code_char_of)
  with True show ?thesis
    unfolding special_codes by auto
next
  case False
  then have "toLowerChar c = c"
    unfolding toLowerChar_def by auto
  then show ?thesis by simp
qed

lemma like_tokens_plain:
  assumes "list_all (\<lambda>c. c \<notin> set ''%_'' \<and> c \<noteq> CHR 0x5C) y"
  shows "like_tokens (y @ ''%'') = Some (map Lit y @ [AnyRun])"
  using assms by (induction y) auto

lemma like_tokens_pattern:
  assumes "like_plain x"
  shows "like_tokens (toLowerCase (map star2percent (''%'' @ x @ ''%''))) =
         Some (AnyRun # map Lit (toLowerCase x) @ [AnyRun])"
proof -
  from assms have star: "map star2percent x = x"
    by (induction x) (auto simp: like_plain_def star2percent_def)
  have pc: "toLowerChar CHR ''%'' = CHR ''%''" by code_simp
  have "list_all (\<lambda>c. c \<notin> set ''%_'' \<and> c \<noteq> CHR 0x5C) (toLowerCase x)"
    using assms toLowerChar_plain
    by (auto simp: like_plain_def toLowerCase_def list_all_iff)
  then have "like_tokens (toLowerCase x @ ''%'') = Some (map Lit (toLowerCase x) @ [AnyRun])"
    by (rule like_tokens_plain)
  then show ?thesis
    by (simp add: star star2percent_def toLowerCase_def pc)
qed

lemma ilike_contains:
  assumes "like_plain x"
  shows "ilike text (''%'' @ x @ ''%'') = Some (ci_contains x text)"
  unfolding ilike_def like_tokens_pattern [OF assms]
  by (simp only: option.map like_match_contains ci_contains_def)

lemma split_on_single: "sep \<notin> set xs \<Longrightarrow> split_on sep xs = [xs]"
  by (induction xs) auto

lemma split_on_first:
  "sep \<notin> set xs \<Longrightarrow> split_on sep (xs @ sep # ys) = xs # split_on sep ys"
  by (induction xs) auto

lemma parse_cmp_title:
  "parse_cmp (''title.ilike.%'' @ v) = Some (''title'', ''ilike'', ''%'' @ v)"
  by (simp add: parse_cmp_def)

lemma parse_cmp_description:
  "parse_cmp (''description.ilike.%'' @ v) = Some (''description'', ''ilike'', ''%'' @ v)"
  by (simp add: parse_cmp_def)

lemma or_list_plain: "CHR '')'' \<notin> set s \<Longrightarrow> or_list s = s"
  unfolding or_list_def by (induction s) auto

lemma comparisons_template:
  assumes op: "or_plain s"
  shows "comparisons (Or (''title.ilike.%'' @ s @ ''%,description.ilike.%'' @ s @ ''%'')) =
         [Some (''title'', ''ilike'', ''%'' @ s @ ''%''),
          Some (''description'', ''ilike'', ''%'' @ s @ ''%'')]"
proof -
  let ?t = "''title.ilike.%'' @ s @ ''%''"
  let ?d = "''description.ilike.%'' @ s @ ''%''"
  from op have s: "CHR '','' \<notin> set s" "CHR '')'' \<notin> set s"
    by (auto simp: or_plain_def list_all_iff)
  have whole: "''title.ilike.%'' @ s @ ''%,description.ilike.%'' @ s @ ''%'' = ?t @ CHR '','' # ?d"
    by simp
  have paren: "CHR '')'' \<notin> set (?t @ CHR '','' # ?d)"
    using s by auto
  have c1: "CHR '','' \<notin> set ?t" and c2: "CHR '','' \<notin> set ?d"
    using s by auto
  have split: "split_on CHR '','' (?t @ CHR '','' # ?d) = [?t, ?d]"
    by (simp only: split_on_first [OF c1] split_on_single [OF c2])
  have pt: "parse_cmp ?t = Some (''title'', ''ilike'', ''%'' @ s @ ''%'')"
    using parse_cmp_title [of "s @ ''%''"] by simp
  have pd: "parse_cmp ?d = Some (''description'', ''ilike'', ''%'' @ s @ ''%'')"
    using parse_cmp_description [of "s @ ''%''"] by simp
  have "comparisons (Or (?t @ CHR '','' # ?d)) =
      [Some (''title'', ''ilike'', ''%'' @ s @ ''%''),
       Some (''description'', ''ilike'', ''%'' @ s @ ''%'')]"
    by (simp only: comparisons.simps or_list_plain [OF paren] split list.map pt pd)
  then show ?thesis by (simp only: whole)
qed

lemma eval_cmp_contains:
  assumes "like_plain s" and "problem_text_column c = Some (\<lambda>p. Some (f p))"
  shows "eval_cmp c ''ilike'' (''%'' @ s @ ''%'') p = Some (ci_contains s (f p))"
  using ilike_contains [OF assms(1), of "f p"] assms(2)
  by (simp add: eval_cmp_def)

lemma text_columns:
  "problem_text_column ''title'' = Some (\<lambda>p. Some (p_title p))"
  "problem_text_column ''description'' = Some (\<lambda>p. Some (p_description p))"
  "problem_text_column ''location'' = Some (\<lambda>p. Some (p_location p))"
  "problem_text_column ''category'' = Some (\<lambda>p. Some (p_category p))"
  "problem_text_column ''country_code'' = Some p_country_code"
  by (simp_all add: problem_text_column_def)

lemma eval_or_template:
  assumes lp: "like_plain s" and op: "or_plain s"
  shows "eval_cond (Or (''title.ilike.%'' @ s @ ''%,description.ilike.%'' @ s @ ''%'')) p =
         Some (ci_contains s (p_title p) \<or> ci_contains s (p_description p))"
  unfolding eval_cond_def comparisons_template [OF op]
  by (simp only: eval_any.simps eval_cmp_contains [OF lp text_columns(1)]
      eval_cmp_contains [OF lp text_columns(2)] option.case option.map simp_thms)

lemma filter_rows_total:
  "(\<And>x. f x = Some (g x)) \<Longrightarrow> filter_rows f xs = Some (filter g xs)"
  by (induction xs) simp_all

lemma eval_conds_append:
  "eval_conds (xs @ ys) p =
     (case eval_conds xs p of
        None \<Rightarrow> None
      | Some a \<Rightarrow> map_option (\<lambda>b. a \<and> b) (eval_conds ys p))"
proof (induction xs)
  case Nil
  show ?case by (cases "eval_conds ys p") simp_all
next
  case (Cons c xs)
  show ?case
  proof (cases "eval_cond c p")
    case None
    then show ?thesis by simp
  next
    case (Some b)
    then show ?thesis
      by (cases "eval_conds xs p"; cases "eval_conds ys p") (simp_all add: Cons.IH)
  qed
qed

lemma eval_category:
  "eval_conds (if category \<noteq> [] then [Cmp ''category'' ''eq'' category] else []) p =
   Some (category = [] \<or> p_category p = category)"
  by (simp add: eval_cond_def eval_cmp_def problem_text_column_def)

lemma eval_country:
  "eval_conds (if country \<noteq> [] then [Cmp ''country_code'' ''eq'' country] else []) p =
   Some (country = [] \<or> p_country_code p = Some country)"
  by (simp add: eval_cond_def eval_cmp_def problem_text_column_def)

lemma eval_location:
  assumes "like_plain location"
  shows "eval_conds (if location \<noteq> []
           then [Cmp ''location'' ''ilike'' (''%'' @ location @ ''%'')] else []) p =
         Some (location = [] \<or> ci_contains location (p_location p))"
  using eval_cmp_contains [OF assms text_columns(3), of p]
  by (simp add: eval_cond_def)

lemma eval_search:
  assumes "like_plain search" "or_plain search"
  shows "eval_conds (if search \<noteq> []
           then [Or (''title.ilike.%'' @ search @ ''%,description.ilike.%'' @ search @ ''%'')]
           else []) p =
         Some (search = [] \<or> ci_contains search (p_title p) \<or> ci_contains search (p_description p))"
proof (cases "search = []")
  case True
  then show ?thesis by simp
next
  case False
  with eval_or_template [OF assms, of p] show ?thesis
    by (simp only: if_True eval_conds.simps option.case option.map simp_thms)
qed

lemma eval_conds_spec:
  assumes "like_plain location" "like_plain search" "or_plain search"
  shows "eval_conds (problem_conds search category location country) p =
         Some (spec_matches search category location country p)"
  unfolding problem_conds_def eval_conds_append eval_category eval_country
    eval_location [OF assms(1)] eval_search [OF assms(2,3)] spec_matches_def
  by (simp only: option.case option.map)

text \<open>The comparisons of the query of the catalogue, which the embedding covers.\<close>

lemma covered_eq:
  "problem_text_column c = Some f \<Longrightarrow> covered (Some (c, ''eq'', v))"
  by (simp add: covered_def)

lemma covered_contains:
  assumes "like_plain s" and "problem_text_column c = Some f"
  shows "covered (Some (c, ''ilike'', ''%'' @ s @ ''%''))"
  using like_tokens_pattern [OF assms(1)] assms(2)
  by (simp add: covered_def)

lemma store_text_pattern: "store_text s \<Longrightarrow> store_text (''%'' @ s @ ''%'')"
  by (simp add: store_text_def)

lemma comps_append:
  "concat (map comparisons (xs @ ys)) =
   concat (map comparisons xs) @ concat (map comparisons ys)"
  by simp

lemma comps_cmp:
  "concat (map comparisons (if c then [Cmp column operator operand] else [])) =
   (if c then [Some (column, operator, operand)] else [])"
  by simp

lemma comps_or:
  assumes "or_plain s"
  shows "concat (map comparisons
           (if c then [Or (''title.ilike.%'' @ s @ ''%,description.ilike.%'' @ s @ ''%'')]
            else [])) =
         (if c then [Some (''title'', ''ilike'', ''%'' @ s @ ''%''),
                     Some (''description'', ''ilike'', ''%'' @ s @ ''%'')]
          else [])"
proof (cases c)
  case True
  then show ?thesis
    by (simp only: if_True list.map concat.simps append_Nil2 comparisons_template [OF assms])
next
  case False
  then show ?thesis by simp
qed

lemma problem_comparisons:
  assumes "or_plain search"
  shows "concat (map comparisons (problem_conds search category location country)) =
     (if category \<noteq> [] then [Some (''category'', ''eq'', category)] else []) @
     (if country \<noteq> [] then [Some (''country_code'', ''eq'', country)] else []) @
     (if location \<noteq> [] then [Some (''location'', ''ilike'', ''%'' @ location @ ''%'')] else []) @
     (if search \<noteq> []
      then [Some (''title'', ''ilike'', ''%'' @ search @ ''%''),
            Some (''description'', ''ilike'', ''%'' @ search @ ''%'')]
      else [])"
  unfolding problem_conds_def comps_append comps_cmp comps_or [OF assms]
  by (rule refl)

lemma problem_conds_covered:
  assumes "like_plain location" "like_plain search" "or_plain search"
  shows "list_all covered
           (concat (map comparisons (problem_conds search category location country)))"
  unfolding problem_comparisons [OF assms(3)]
  using covered_eq [OF text_columns(4), of category] covered_eq [OF text_columns(5), of country]
    covered_contains [OF assms(1) text_columns(3)] covered_contains [OF assms(2) text_columns(1)]
    covered_contains [OF assms(2) text_columns(2)]
  by simp

lemma problem_conds_not_cut:
  assumes "or_plain search"
  shows "\<not> list_ex cut_short (problem_conds search category location country)"
proof -
  from assms have "CHR '')'' \<notin> set search"
    by (auto simp: or_plain_def list_all_iff)
  then show ?thesis
    by (auto simp: problem_conds_def cut_short_def)
qed

lemma problem_conds_accepted:
  assumes "or_plain search"
    and "store_text search" "store_text category" "store_text location" "store_text country"
  shows "store_refusal R (problem_conds search category location country) = None"
proof -
  have "\<not> list_ex operand_refused
      (concat (map comparisons (problem_conds search category location country)))"
    unfolding problem_comparisons [OF assms(1)]
    using assms(2-5) store_text_pattern [OF assms(2)] store_text_pattern [OF assms(4)]
    by (auto simp: operand_refused_def)
  with problem_conds_not_cut [OF assms(1)] show ?thesis
    by (simp add: store_refusal_def)
qed

lemma select_problems_spec:
  assumes "like_plain location" "like_plain search" "or_plain search"
    and "store_text search" "store_text category" "store_text location" "store_text country"
  shows "select_problems R d (problem_conds search category location country) n =
     Some (Inr (map (\<lambda>p. (p, [count_matches d (p_id p)]))
       (take n (order_desc p_created_at
          (filter (spec_matches search category location country) (problems d))))))"
proof -
  have rows: "filter_rows (eval_conds (problem_conds search category location country))
      (problems d) = Some (filter (spec_matches search category location country) (problems d))"
    by (rule filter_rows_total) (rule eval_conds_spec [OF assms(1-3)])
  show ?thesis
    unfolding select_problems_def rows problem_conds_accepted [OF assms(3-7)]
    using problem_conds_covered [OF assms(1-3)]
    by (simp only: not_True_eq_False if_False option.case option.map)
qed

lemma count_list_take: "count_list (take n xs) x \<le> count_list xs x"
proof (induction xs arbitrary: n)
  case Nil
  then show ?case by simp
next
  case (Cons a xs)
  then show ?case by (cases n) (auto intro: le_SucI)
qed

lemma count_list_insort: "count_list (insort_key f a xs) x = count_list (a # xs) x"
  by (induction xs) auto

lemma count_list_sort: "count_list (sort_key f xs) x = count_list xs x"
  by (induction xs) (simp_all add: count_list_insort)

lemma count_list_order_desc: "count_list (order_desc f xs) x = count_list xs x"
  by (simp add: order_desc_def count_list_sort)

lemma count_list_filter_le: "count_list (filter P xs) x \<le> count_list xs x"
  by (induction xs) auto

lemma toUpperChar_store_text:
  assumes "c \<noteq> CHR 0x00" and "toUpperChar c = Some e"
  shows "store_text e"
proof -
  have zero: "code CHR 0x00 = 0" by (simp add: code_def)
  from assms(1) have c: "code c \<noteq> 0"
    using code_eq_iff [of c "CHR 0x00"] zero by simp
  have s: "CHR ''S'' \<noteq> CHR 0x00" by simp
  show ?thesis
  proof (cases "(97 \<le> code c \<and> code c \<le> 122) \<or> (224 \<le> code c \<and> code c \<le> 254 \<and> code c \<noteq> 247)")
    case True
    then have "code (char_of (code c - 32) :: char) = code c - 32"
      by (intro code_char_of) auto
    with True have "code (char_of (code c - 32) :: char) \<noteq> code CHR 0x00"
      unfolding zero by auto
    then have "(char_of (code c - 32) :: char) \<noteq> CHR 0x00"
      using code_eq_iff by blast
    with True assms(2) show ?thesis
      by (auto simp: toUpperChar_def store_text_def)
  next
    case False
    with assms show ?thesis
      by (auto simp: toUpperChar_def store_text_def split: if_splits)
  qed
qed

lemma toUpperCase_store_text:
  "store_text s \<Longrightarrow> toUpperCase s = Some t \<Longrightarrow> store_text t"
proof (induction s arbitrary: t)
  case Nil
  then show ?case by (simp add: toUpperCase_Nil store_text_def)
next
  case (Cons c s)
  from Cons.prems(1) have c: "c \<noteq> CHR 0x00" and s: "store_text s"
    by (auto simp: store_text_def)
  from Cons.prems(2) obtain e t' where e: "toUpperChar c = Some e"
    and t': "toUpperCase s = Some t'" and t: "t = e @ t'"
    by (auto simp: toUpperCase_Cons split: option.splits)
  from toUpperChar_store_text [OF c e] Cons.IH [OF s t'] show ?case
    by (simp add: t store_text_def)
qed

text \<open>
  C5, as the specification states it: for every combination of the filters, the location
  and the search are matched as case-insensitive substrings and the problems that match
  are returned. The handler puts each of the two between two \<open>%\<close> and hands it to \<open>ILIKE\<close>
  as a pattern: each of the locations \<open>_\<close>, \<open>%\<close>, \<open>*\<close> and backslash \<open>l\<close> selects a problem
  in Lima, whose location holds none of them. It writes the search into the text of an
  \<open>or\<close>, where a comma ends a condition and a closing parenthesis ends the list: the search
  \<open>g,title.ilike.r\<close> is read as four conditions, the first of them that the title ends in
  \<open>g\<close>, and selects the problem titled \<open>Road flooding\<close>, which holds that text neither in
  its title nor in its description; the search \<open>g)\<close> is refused with its text after the
  parenthesis, or else read as that one condition on the title, and selects the same
  problem. And the store takes no text with the code unit 0: a category that holds it is
  answered with 500.
\<close>

theorem searchProblems_unescaped_counterexample:
  "\<not> spec_matches [] [] ''_'' [] ex_problem \<and>
   searchProblems RefuseRest ex_db None None (Some (QStr ''_'')) None =
     Some (json (ProblemsBody [\<lparr>pi_problem = ex_problem, collaboratorCount = 1\<rparr>])) \<and>
   searchProblems IgnoreRest ex_db None None (Some (QStr ''_'')) None =
     Some (json (ProblemsBody [\<lparr>pi_problem = ex_problem, collaboratorCount = 1\<rparr>])) \<and>
   \<not> spec_matches [] [] ''%'' [] ex_problem \<and>
   searchProblems RefuseRest ex_db None None (Some (QStr ''%'')) None =
     Some (json (ProblemsBody [\<lparr>pi_problem = ex_problem, collaboratorCount = 1\<rparr>])) \<and>
   searchProblems IgnoreRest ex_db None None (Some (QStr ''%'')) None =
     Some (json (ProblemsBody [\<lparr>pi_problem = ex_problem, collaboratorCount = 1\<rparr>])) \<and>
   \<not> spec_matches [] [] ''*'' [] ex_problem \<and>
   searchProblems RefuseRest ex_db None None (Some (QStr ''*'')) None =
     Some (json (ProblemsBody [\<lparr>pi_problem = ex_problem, collaboratorCount = 1\<rparr>])) \<and>
   searchProblems IgnoreRest ex_db None None (Some (QStr ''*'')) None =
     Some (json (ProblemsBody [\<lparr>pi_problem = ex_problem, collaboratorCount = 1\<rparr>])) \<and>
   \<not> spec_matches [] [] [CHR 0x5C, CHR ''l''] [] ex_problem \<and>
   searchProblems RefuseRest ex_db None None (Some (QStr [CHR 0x5C, CHR ''l''])) None =
     Some (json (ProblemsBody [\<lparr>pi_problem = ex_problem, collaboratorCount = 1\<rparr>])) \<and>
   searchProblems IgnoreRest ex_db None None (Some (QStr [CHR 0x5C, CHR ''l''])) None =
     Some (json (ProblemsBody [\<lparr>pi_problem = ex_problem, collaboratorCount = 1\<rparr>])) \<and>
   like_plain ''g,title.ilike.r'' \<and>
   \<not> spec_matches ''g,title.ilike.r'' [] [] [] ex_problem \<and>
   searchProblems RefuseRest ex_db (Some (QStr ''g,title.ilike.r'')) None None None =
     Some (json (ProblemsBody [\<lparr>pi_problem = ex_problem, collaboratorCount = 1\<rparr>])) \<and>
   searchProblems IgnoreRest ex_db (Some (QStr ''g,title.ilike.r'')) None None None =
     Some (json (ProblemsBody [\<lparr>pi_problem = ex_problem, collaboratorCount = 1\<rparr>])) \<and>
   like_plain ''g)'' \<and>
   \<not> spec_matches ''g)'' [] [] [] ex_problem \<and>
   searchProblems RefuseRest ex_db (Some (QStr ''g)'')) None None None =
     Some (status_json 500 (StoreErrorBody RequestRefused)) \<and>
   searchProblems IgnoreRest ex_db (Some (QStr ''g)'')) None None None =
     Some (json (ProblemsBody [\<lparr>pi_problem = ex_problem, collaboratorCount = 1\<rparr>])) \<and>
   searchProblems RefuseRest ex_db None (Some (QStr [CHR 0x00])) None None =
     Some (status_json 500 (StoreErrorBody InvalidByteSequence)) \<and>
   searchProblems IgnoreRest ex_db None (Some (QStr [CHR 0x00])) None None =
     Some (status_json 500 (StoreErrorBody InvalidByteSequence))"
proof -
  have s_u: "\<not> spec_matches [] [] ''_'' [] ex_problem"
    unfolding ex_defs spec_matches_def ci_contains_def by code_simp
  have r_u: "searchProblems RefuseRest ex_db None None (Some (QStr ''_'')) None =
      Some (json (ProblemsBody [\<lparr>pi_problem = ex_problem, collaboratorCount = 1\<rparr>]))"
    unfolding ex_defs by code_simp
  have i_u: "searchProblems IgnoreRest ex_db None None (Some (QStr ''_'')) None =
      Some (json (ProblemsBody [\<lparr>pi_problem = ex_problem, collaboratorCount = 1\<rparr>]))"
    unfolding ex_defs by code_simp
  have s_pc: "\<not> spec_matches [] [] ''%'' [] ex_problem"
    unfolding ex_defs spec_matches_def ci_contains_def by code_simp
  have r_pc: "searchProblems RefuseRest ex_db None None (Some (QStr ''%'')) None =
      Some (json (ProblemsBody [\<lparr>pi_problem = ex_problem, collaboratorCount = 1\<rparr>]))"
    unfolding ex_defs by code_simp
  have i_pc: "searchProblems IgnoreRest ex_db None None (Some (QStr ''%'')) None =
      Some (json (ProblemsBody [\<lparr>pi_problem = ex_problem, collaboratorCount = 1\<rparr>]))"
    unfolding ex_defs by code_simp
  have s_st: "\<not> spec_matches [] [] ''*'' [] ex_problem"
    unfolding ex_defs spec_matches_def ci_contains_def by code_simp
  have r_st: "searchProblems RefuseRest ex_db None None (Some (QStr ''*'')) None =
      Some (json (ProblemsBody [\<lparr>pi_problem = ex_problem, collaboratorCount = 1\<rparr>]))"
    unfolding ex_defs by code_simp
  have i_st: "searchProblems IgnoreRest ex_db None None (Some (QStr ''*'')) None =
      Some (json (ProblemsBody [\<lparr>pi_problem = ex_problem, collaboratorCount = 1\<rparr>]))"
    unfolding ex_defs by code_simp
  have s_bs: "\<not> spec_matches [] [] [CHR 0x5C, CHR ''l''] [] ex_problem"
    unfolding ex_defs spec_matches_def ci_contains_def by code_simp
  have r_bs: "searchProblems RefuseRest ex_db None None (Some (QStr [CHR 0x5C, CHR ''l''])) None =
      Some (json (ProblemsBody [\<lparr>pi_problem = ex_problem, collaboratorCount = 1\<rparr>]))"
    unfolding ex_defs by code_simp
  have i_bs: "searchProblems IgnoreRest ex_db None None (Some (QStr [CHR 0x5C, CHR ''l''])) None =
      Some (json (ProblemsBody [\<lparr>pi_problem = ex_problem, collaboratorCount = 1\<rparr>]))"
    unfolding ex_defs by code_simp
  have l_c: "like_plain ''g,title.ilike.r''"
    unfolding like_plain_def by code_simp
  have s_c: "\<not> spec_matches ''g,title.ilike.r'' [] [] [] ex_problem"
    unfolding ex_defs spec_matches_def ci_contains_def by code_simp
  have r_c: "searchProblems RefuseRest ex_db (Some (QStr ''g,title.ilike.r'')) None None None =
      Some (json (ProblemsBody [\<lparr>pi_problem = ex_problem, collaboratorCount = 1\<rparr>]))"
    unfolding ex_defs by code_simp
  have i_c: "searchProblems IgnoreRest ex_db (Some (QStr ''g,title.ilike.r'')) None None None =
      Some (json (ProblemsBody [\<lparr>pi_problem = ex_problem, collaboratorCount = 1\<rparr>]))"
    unfolding ex_defs by code_simp
  have l_p: "like_plain ''g)''"
    unfolding like_plain_def by code_simp
  have s_p: "\<not> spec_matches ''g)'' [] [] [] ex_problem"
    unfolding ex_defs spec_matches_def ci_contains_def by code_simp
  have r_p: "searchProblems RefuseRest ex_db (Some (QStr ''g)'')) None None None =
      Some (status_json 500 (StoreErrorBody RequestRefused))"
    unfolding ex_defs by code_simp
  have i_p: "searchProblems IgnoreRest ex_db (Some (QStr ''g)'')) None None None =
      Some (json (ProblemsBody [\<lparr>pi_problem = ex_problem, collaboratorCount = 1\<rparr>]))"
    unfolding ex_defs by code_simp
  have r_z: "searchProblems RefuseRest ex_db None (Some (QStr [CHR 0x00])) None None =
      Some (status_json 500 (StoreErrorBody InvalidByteSequence))"
    unfolding ex_defs by code_simp
  have i_z: "searchProblems IgnoreRest ex_db None (Some (QStr [CHR 0x00])) None None =
      Some (status_json 500 (StoreErrorBody InvalidByteSequence))"
    unfolding ex_defs by code_simp
  show ?thesis
    by (intro conjI)
      (fact s_u r_u i_u s_pc r_pc i_pc s_st r_st i_st s_bs r_bs i_bs l_c s_c r_c i_c l_p s_p r_p i_p r_z i_z)+
qed

text \<open>
  C5, amended. For filters that hold no code unit 0, whose location and search hold no
  pattern character of \<open>LIKE\<close>, whose search holds no comma and no closing parenthesis, and
  whose country code stays among the covered code units in upper case, \<open>searchProblems\<close>
  applies the conjunction of the filters that are given, each trimmed: category by
  equality, country code in upper case by equality, location as a case-insensitive
  substring, search as a case-insensitive substring of the title or of the description.
  It answers with 200 of the problems that satisfy them, or with all of them when they
  are fewer, each once, ordered by creation time descending, and a problem that satisfies
  them and is left out is no more recent than any that is listed. Each comes with
  \<open>collaboratorCount\<close> the number of match rows that reference it.
\<close>

theorem searchProblems_contract:
  assumes "like_plain (string_param q_location)"
    and "like_plain (string_param q_search)"
    and "or_plain (string_param q_search)"
    and "store_text (string_param q_search)"
    and "store_text (string_param q_category)"
    and "store_text (string_param q_location)"
    and "store_text (string_param q_country_code)"
    and "toUpperCase (string_param q_country_code) = Some country"
  shows "\<exists>items.
     searchProblems R d q_search q_category q_location q_country_code =
       Some (json (ProblemsBody items)) \<and>
     length items \<le> 200 \<and>
     length items =
       min 200 (length (filter
         (spec_matches (string_param q_search) (string_param q_category)
            (string_param q_location) country)
         (problems d))) \<and>
     (\<forall>p. count_list (map pi_problem items) p \<le> count_list (problems d) p) \<and>
     sorted_wrt (\<lambda>a b. p_created_at (pi_problem b) \<le> p_created_at (pi_problem a)) items \<and>
     (\<forall>i \<in> set items.
        pi_problem i \<in> set (problems d) \<and>
        spec_matches (string_param q_search) (string_param q_category)
          (string_param q_location) country (pi_problem i) \<and>
        collaboratorCount i =
          length (filter (\<lambda>m. m_problem_id m = p_id (pi_problem i)) (problem_matches d))) \<and>
     (\<forall>p \<in> set (problems d).
        spec_matches (string_param q_search) (string_param q_category)
          (string_param q_location) country p \<longrightarrow>
        p \<in> set (map pi_problem items) \<or>
        (\<forall>i \<in> set items. p_created_at p \<le> p_created_at (pi_problem i)))"
proof -
  let ?spec = "spec_matches (string_param q_search) (string_param q_category)
               (string_param q_location) country"
  let ?all = "order_desc p_created_at (filter ?spec (problems d))"
  let ?ps = "take 200 ?all"
  let ?item = "\<lambda>p. \<lparr>pi_problem = p, collaboratorCount = count_matches d (p_id p)\<rparr>"
  let ?items = "map ?item ?ps"
  from assms(7,8) have country: "store_text country"
    by (rule toUpperCase_store_text)
  have res: "searchProblems R d q_search q_category q_location q_country_code =
      Some (json (ProblemsBody ?items))"
    using select_problems_spec [OF assms(1-6) country, of R d 200]
    by (simp add: searchProblems_def Let_def assms(8) problem_item_of_def comp_def)
  have ps: "map pi_problem ?items = ?ps"
    by (simp add: comp_def)
  have len: "length ?items \<le> 200"
    by simp
  have exact: "length ?items = min 200 (length (filter ?spec (problems d)))"
    by (simp only: length_map length_take length_order_desc min.commute)
  have once: "\<forall>p. count_list (map pi_problem ?items) p \<le> count_list (problems d) p"
  proof
    fix p
    have "count_list ?ps p \<le> count_list ?all p" by (rule count_list_take)
    also have "\<dots> = count_list (filter ?spec (problems d)) p" by (rule count_list_order_desc)
    also have "\<dots> \<le> count_list (problems d) p" by (rule count_list_filter_le)
    finally show "count_list (map pi_problem ?items) p \<le> count_list (problems d) p"
      by (simp only: ps)
  qed
  have sorted: "sorted_wrt (\<lambda>a b. p_created_at (pi_problem b) \<le> p_created_at (pi_problem a)) ?items"
  proof -
    have "sorted_wrt (\<lambda>a b. p_created_at b \<le> p_created_at a) ?ps"
      by (rule sorted_take_desc)
    then show ?thesis by (simp add: sorted_wrt_map)
  qed
  have each: "\<forall>i \<in> set ?items.
        pi_problem i \<in> set (problems d) \<and> ?spec (pi_problem i) \<and>
        collaboratorCount i =
          length (filter (\<lambda>m. m_problem_id m = p_id (pi_problem i)) (problem_matches d))"
  proof
    fix i assume "i \<in> set ?items"
    then obtain p where p: "p \<in> set ?ps" and i: "i = ?item p" by auto
    from p have "p \<in> set ?all"
      by (rule in_set_takeD)
    then have "p \<in> set (problems d)" "?spec p"
      by (simp_all add: set_order_desc)
    then show "pi_problem i \<in> set (problems d) \<and> ?spec (pi_problem i) \<and>
        collaboratorCount i =
          length (filter (\<lambda>m. m_problem_id m = p_id (pi_problem i)) (problem_matches d))"
      by (simp add: i count_matches_def)
  qed
  have recent: "\<forall>p \<in> set (problems d). ?spec p \<longrightarrow>
        p \<in> set (map pi_problem ?items) \<or>
        (\<forall>i \<in> set ?items. p_created_at p \<le> p_created_at (pi_problem i))"
  proof (intro ballI impI)
    fix p assume "p \<in> set (problems d)" and "?spec p"
    then have "p \<in> set ?all" by (simp add: set_order_desc)
    then have "p \<in> set ?ps \<union> set (drop 200 ?all)"
      by (simp only: set_append [symmetric] append_take_drop_id)
    then show "p \<in> set (map pi_problem ?items) \<or>
        (\<forall>i \<in> set ?items. p_created_at p \<le> p_created_at (pi_problem i))"
    proof
      assume "p \<in> set ?ps"
      then show ?thesis by (simp only: ps) simp
    next
      assume older: "p \<in> set (drop 200 ?all)"
      have "\<forall>x \<in> set ?ps. p_created_at p \<le> p_created_at x"
      proof
        fix x assume "x \<in> set ?ps"
        from take_most_recent [OF this older] show "p_created_at p \<le> p_created_at x" .
      qed
      then have "\<forall>i \<in> set ?items. p_created_at p \<le> p_created_at (pi_problem i)"
        by simp
      then show ?thesis by blast
    qed
  qed
  from res len exact once sorted each recent show ?thesis
    by (intro exI [of _ ?items] conjI)
qed

theorem searchProblems_contract_witness:
  "like_plain (string_param (Some (QStr ''lim''))) \<and>
   like_plain (string_param (Some (QStr '' ROAD ''))) \<and>
   or_plain (string_param (Some (QStr '' ROAD ''))) \<and>
   toUpperCase (string_param (Some (QStr ''pe''))) = Some ''PE'' \<and>
   (\<exists>items.
      searchProblems RefuseRest ex_db (Some (QStr '' ROAD '')) (Some (QStr ''infrastructure''))
          (Some (QStr ''lim'')) (Some (QStr ''pe'')) =
        Some (json (ProblemsBody items)) \<and>
      map pi_problem items = [ex_problem] \<and> map collaboratorCount items = [1]) \<and>
   (\<exists>items.
      searchProblems RefuseRest ex_db (Some (QStr '' ROAD '')) (Some (QStr ''health''))
          (Some (QStr ''lim'')) (Some (QStr ''pe'')) =
        Some (json (ProblemsBody items)) \<and>
      items = []) \<and>
   toUpperCase [CHR 0xE9] = Some [CHR 0xC9] \<and>
   or_plain ''a(b'' \<and>
   (\<exists>items.
      searchProblems IgnoreRest ex_catalogue None None (Some (QStr (''BOGOT'' @ [CHR 0xC1])))
          (Some (QStr ''co'')) =
        Some (json (ProblemsBody items)) \<and>
      map pi_problem items = [ex_bogota] \<and> map collaboratorCount items = [0])"
proof -
  let ?s = "Some (QStr '' ROAD '')" and ?l = "Some (QStr ''lim'')" and ?c = "Some (QStr ''pe'')"
  let ?b = "Some (QStr (''BOGOT'' @ [CHR 0xC1]))" and ?co = "Some (QStr ''co'')"
  let ?i = "Some (QStr ''infrastructure'')" and ?h = "Some (QStr ''health'')"
  have a1: "like_plain (string_param ?l)" by (simp add: like_plain_def) code_simp
  have a2: "like_plain (string_param ?s)" by (simp add: like_plain_def) code_simp
  have a3: "or_plain (string_param ?s)" by (simp add: or_plain_def) code_simp
  have a4: "toUpperCase (string_param ?c) = Some ''PE''" by code_simp
  have t1: "store_text (string_param ?s)" "store_text (string_param ?i)"
    "store_text (string_param ?h)" "store_text (string_param ?l)" "store_text (string_param ?c)"
    unfolding store_text_def by code_simp+
  have b1: "like_plain (string_param ?b)" by (simp add: like_plain_def) code_simp
  have b2: "like_plain (string_param None)" "or_plain (string_param None)"
    "store_text (string_param None)"
    by (simp_all add: like_plain_def or_plain_def store_text_def string_param_def)
  have t2: "store_text (string_param ?b)" "store_text (string_param ?co)"
    unfolding store_text_def by code_simp+
  have b4: "toUpperCase (string_param ?co) = Some ''CO''" by code_simp
  have b5: "toUpperCase [CHR 0xE9] = Some [CHR 0xC9]" by code_simp
  have b6: "or_plain ''a(b''" unfolding or_plain_def by code_simp
  have e1: "filter (spec_matches (string_param ?s) (string_param ?i) (string_param ?l) ''PE'')
         (problems ex_db) = [ex_problem]"
    unfolding ex_defs spec_matches_def ci_contains_def by code_simp
  have e2: "filter (spec_matches (string_param ?s) (string_param ?h) (string_param ?l) ''PE'')
         (problems ex_db) = []"
    unfolding ex_defs spec_matches_def ci_contains_def by code_simp
  have e3: "filter (spec_matches (string_param None) (string_param None) (string_param ?b) ''CO'')
         (problems ex_catalogue) = [ex_bogota]"
    unfolding ex_catalogue_def ex_bogota_def ex_defs spec_matches_def ci_contains_def by code_simp
  have n: "length (filter (\<lambda>m. m_problem_id m = p_id ex_problem) (problem_matches ex_db)) = 1"
    unfolding ex_defs by code_simp
  have n3: "length (filter (\<lambda>m. m_problem_id m = p_id ex_bogota) (problem_matches ex_catalogue)) = 0"
    unfolding ex_catalogue_def ex_bogota_def ex_defs by code_simp
  from searchProblems_contract [OF a1 a2 a3 t1(1) t1(2) t1(4) t1(5) a4, of RefuseRest ex_db]
  obtain items where i1: "searchProblems RefuseRest ex_db ?s ?i ?l ?c =
        Some (json (ProblemsBody items))"
    and i2: "length items = min 200 (length [ex_problem])"
    and i3: "\<forall>i \<in> set items.
        pi_problem i \<in> set (problems ex_db) \<and>
        spec_matches (string_param ?s) (string_param ?i) (string_param ?l) ''PE'' (pi_problem i) \<and>
        collaboratorCount i =
          length (filter (\<lambda>m. m_problem_id m = p_id (pi_problem i)) (problem_matches ex_db))"
    unfolding e1 by (elim exE conjE)
  from i2 obtain i where items: "items = [i]"
    by (cases items) simp_all
  from i3 have "pi_problem i \<in> set (filter (spec_matches (string_param ?s)
      (string_param ?i) (string_param ?l) ''PE'') (problems ex_db))"
    by (simp add: items)
  then have i: "pi_problem i = ex_problem"
    unfolding e1 by simp
  then have i4: "map pi_problem items = [ex_problem]"
    by (simp add: items)
  from i3 n have i5: "map collaboratorCount items = [1]"
    by (simp add: items i)
  from searchProblems_contract [OF a1 a2 a3 t1(1) t1(3) t1(4) t1(5) a4, of RefuseRest ex_db]
  obtain items' where j1: "searchProblems RefuseRest ex_db ?s ?h ?l ?c =
        Some (json (ProblemsBody items'))"
    and j2: "length items' = min 200 (length ([] :: problem_row list))"
    unfolding e2 by (elim exE conjE)
  from j2 have j3: "items' = []" by simp
  from searchProblems_contract [OF b1 b2(1) b2(2) b2(3) b2(3) t2(1) t2(2) b4, of IgnoreRest ex_catalogue]
  obtain items'' where k1: "searchProblems IgnoreRest ex_catalogue None None ?b ?co =
        Some (json (ProblemsBody items''))"
    and k2: "length items'' = min 200 (length [ex_bogota])"
    and k3: "\<forall>i \<in> set items''.
        pi_problem i \<in> set (problems ex_catalogue) \<and>
        spec_matches (string_param None) (string_param None) (string_param ?b) ''CO''
          (pi_problem i) \<and>
        collaboratorCount i =
          length (filter (\<lambda>m. m_problem_id m = p_id (pi_problem i)) (problem_matches ex_catalogue))"
    unfolding e3 by (elim exE conjE)
  from k2 obtain k where items'': "items'' = [k]"
    by (cases items'') simp_all
  from k3 have "pi_problem k \<in> set (filter (spec_matches (string_param None) (string_param None)
      (string_param ?b) ''CO'') (problems ex_catalogue))"
    by (simp add: items'')
  then have k: "pi_problem k = ex_bogota"
    unfolding e3 by simp
  then have k4: "map pi_problem items'' = [ex_bogota]"
    by (simp add: items'')
  from k3 n3 have k5: "map collaboratorCount items'' = [0]"
    by (simp add: items'' k)
  show ?thesis
    by (intro conjI exI [of _ items] exI [of _ items'] exI [of _ items''])
      (fact a1 a2 a3 a4 i1 i4 i5 j1 j3 b5 b6 k1 k4 k5)+
qed

end
